theory Spec2Isabelle
  imports Main "HOL-Library.Word"
begin

section \<open>Tag grammar (project/routers/local.py)\<close>

text \<open>
  The tag pattern of the source is the compiled regular expression
  \<^verbatim>\<open>[a-z0-9]{1,2}|[a-z0-9][a-z0-9-]{,30}[a-z0-9]\<close>, used through \<^verbatim>\<open>fullmatch\<close>.
  The pattern is kept as a syntax tree and run by a backtracking matcher that
  returns, in the order the engine tries them, every remainder of the input
  left after matching a prefix. A full match is a run with the empty remainder.
\<close>

datatype char_item = Range char char | Single char

datatype regex =
    Class "char_item list"
  | Seq regex regex
  | Alt regex regex
  | Repeat nat nat regex

fun in_item :: "char \<Rightarrow> char_item \<Rightarrow> bool" where
  "in_item c (Range lo hi) = ((of_char lo :: nat) \<le> of_char c \<and> (of_char c :: nat) \<le> of_char hi)"
| "in_item c (Single d) = (c = d)"

definition in_class :: "char_item list \<Rightarrow> char \<Rightarrow> bool" where
  "in_class items c = list_ex (in_item c) items"

text \<open>
  \<open>repeat_from f lo hi s\<close>: between \<open>lo\<close> and \<open>hi\<close> repetitions of the matcher \<open>f\<close>,
  greedy (one more repetition is tried before stopping).
\<close>

fun repeat_from :: "(string \<Rightarrow> string list) \<Rightarrow> nat \<Rightarrow> nat \<Rightarrow> string \<Rightarrow> string list" where
  "repeat_from f lo 0 s = (if lo = 0 then [s] else [])"
| "repeat_from f lo (Suc hi) s =
     concat (map (repeat_from f (lo - 1) hi) (f s)) @ (if lo = 0 then [s] else [])"

primrec remainders :: "regex \<Rightarrow> string \<Rightarrow> string list" where
  "remainders (Class items) s =
     (case s of [] \<Rightarrow> [] | c # cs \<Rightarrow> if in_class items c then [cs] else [])"
| "remainders (Seq a b) s = concat (map (remainders b) (remainders a s))"
| "remainders (Alt a b) s = remainders a s @ remainders b s"
| "remainders (Repeat lo hi a) s = repeat_from (remainders a) lo hi s"

definition fullmatch :: "regex \<Rightarrow> string \<Rightarrow> bool" where
  "fullmatch r s = ([] \<in> set (remainders r s))"

definition alnum_lower :: "char_item list" where
  "alnum_lower = [Range (CHR ''a'') (CHR ''z''), Range (CHR ''0'') (CHR ''9'')]"

definition alnum_lower_hyphen :: "char_item list" where
  "alnum_lower_hyphen =
     [Range (CHR ''a'') (CHR ''z''), Range (CHR ''0'') (CHR ''9''), Single (CHR ''-'')]"

definition TAG_PATTERN :: regex where
  "TAG_PATTERN =
     Alt (Repeat 1 2 (Class alnum_lower))
         (Seq (Class alnum_lower)
              (Seq (Repeat 0 30 (Class alnum_lower_hyphen)) (Class alnum_lower)))"

definition is_valid_tag :: "string \<Rightarrow> bool" where
  "is_valid_tag tag = fullmatch TAG_PATTERN tag"

text \<open>
  The grammar in the words of the specification: a string of one or two lowercase
  alphanumerics, or a string of 2 to 32 lowercase alphanumerics and hyphens that
  starts and ends with an alphanumeric.
\<close>

definition is_lower_alnum :: "char \<Rightarrow> bool" where
  "is_lower_alnum c =
     ((97 \<le> (of_char c :: nat) \<and> (of_char c :: nat) \<le> 122) \<or>
      (48 \<le> (of_char c :: nat) \<and> (of_char c :: nat) \<le> 57))"

definition tag_grammar :: "string \<Rightarrow> bool" where
  "tag_grammar t =
     (((length t = 1 \<or> length t = 2) \<and> list_all is_lower_alnum t) \<or>
      (2 \<le> length t \<and> length t \<le> 32 \<and>
       list_all (\<lambda>c. is_lower_alnum c \<or> c = CHR ''-'') t \<and>
       is_lower_alnum (hd t) \<and> is_lower_alnum (last t)))"


section \<open>Errors\<close>

text \<open>
  Exceptions the handlers do not catch (the framework answers 500) and the
  HTTP errors they raise themselves, one constructor per raise site.
\<close>

datatype exn =
    StopIteration
  | OperationalError
  | IntegrityError
  | DoesNotExist
  | S3Error string
  | ValueError

datatype error =
    InvalidTag
  | FilenameConflict
  | AnalysisNotFound
  | ObjectNotFound
  | ObjectStoreError
  | Forbidden
  | ProjectStillOnHub
  | RemoteNodeNotFound
  | NoPublicKey
  | DecryptionNotPossible
  | Uncaught exn

fun status_code :: "error \<Rightarrow> nat" where
  "status_code InvalidTag = 400"
| "status_code FilenameConflict = 400"
| "status_code AnalysisNotFound = 404"
| "status_code ObjectNotFound = 404"
| "status_code ObjectStoreError = 502"
| "status_code Forbidden = 403"
| "status_code ProjectStillOnHub = 400"
| "status_code RemoteNodeNotFound = 404"
| "status_code NoPublicKey = 400"
| "status_code DecryptionNotPossible = 400"
| "status_code (Uncaught _) = 500"

section \<open>Tag Ledger\<close>

text \<open>
  Modelled from the spec: the module \<^verbatim>\<open>project/crud.py\<close> (the models Result, Tag and
  TaggedResult and the context manager \<^verbatim>\<open>bind_to\<close>) is not among the sources. The
  three tables carry the uniqueness constraints of the data model: the pair
  (object_id, client_id) is unique among Result rows, the pair (tag_name, project_id)
  among Tag rows, the pair (tag, result) among TaggedResult rows, and a TaggedResult
  row is removed with its Tag or its Result. The store is accessed through
  create-if-absent primitives, and the ledger writes of one call are all-or-nothing.
\<close>

record result_row =
  r_id :: nat
  r_client_id :: string
  r_object_id :: string
  r_filename :: string

record tag_row =
  t_id :: nat
  t_tag_name :: string
  t_project_id :: string

record tagged_result_row =
  tr_id :: nat
  tr_tag :: nat
  tr_result :: nat

record ledger =
  results :: "result_row list"
  tags :: "tag_row list"
  tagged_results :: "tagged_result_row list"

definition empty_ledger :: ledger where
  "empty_ledger = \<lparr>results = [], tags = [], tagged_results = []\<rparr>"

text \<open>The surrogate key of a new row: larger than every key of the table.\<close>

definition fresh_id :: "nat list \<Rightarrow> nat" where
  "fresh_id ids = Suc (fold max ids 0)"

text \<open>
  The create-if-absent primitive (\<^verbatim>\<open>Model.get_or_create\<close> of the ORM): select the row
  with the given field values; if there is none, insert it; an insert that breaks a
  uniqueness constraint raises IntegrityError and inserts nothing. \<open>up\<close> tells whether
  the relational store answers this call; when it does not, the call raises
  OperationalError and writes nothing.
\<close>

definition get_or_create ::
  "bool \<Rightarrow> ('row \<Rightarrow> bool) \<Rightarrow> ('row \<Rightarrow> bool) \<Rightarrow> 'row \<Rightarrow> 'row list \<Rightarrow> (exn + 'row) \<times> 'row list" where
  "get_or_create up same clashes new rows =
     (if \<not> up then (Inl OperationalError, rows)
      else (case find same rows of
              Some row \<Rightarrow> (Inr row, rows)
            | None \<Rightarrow>
                if list_ex clashes rows then (Inl IntegrityError, rows)
                else (Inr new, rows @ [new])))"

text \<open>
  Modelled from the spec: the create-if-absent calls of the three models of
  \<^verbatim>\<open>project/crud.py\<close>. The lookup is by the fields the caller passes; an insert
  clashes with a row that has the unique key of the new row.
\<close>

definition Result_get_or_create ::
  "bool \<Rightarrow> ledger \<Rightarrow> string \<Rightarrow> string \<Rightarrow> string \<Rightarrow> (exn + result_row) \<times> ledger" where
  "Result_get_or_create up db client_id object_id filename =
     (case get_or_create up
             (\<lambda>r. r_client_id r = client_id \<and> r_object_id r = object_id \<and> r_filename r = filename)
             (\<lambda>r. r_object_id r = object_id \<and> r_client_id r = client_id)
             \<lparr>r_id = fresh_id (map r_id (results db)), r_client_id = client_id,
              r_object_id = object_id, r_filename = filename\<rparr>
             (results db) of
        (res, rows) \<Rightarrow> (res, db\<lparr>results := rows\<rparr>))"

definition Tag_get_or_create ::
  "bool \<Rightarrow> ledger \<Rightarrow> string \<Rightarrow> string \<Rightarrow> (exn + tag_row) \<times> ledger" where
  "Tag_get_or_create up db tag_name project_id =
     (case get_or_create up
             (\<lambda>t. t_tag_name t = tag_name \<and> t_project_id t = project_id)
             (\<lambda>t. t_tag_name t = tag_name \<and> t_project_id t = project_id)
             \<lparr>t_id = fresh_id (map t_id (tags db)), t_tag_name = tag_name,
              t_project_id = project_id\<rparr>
             (tags db) of
        (res, rows) \<Rightarrow> (res, db\<lparr>tags := rows\<rparr>))"

definition TaggedResult_get_or_create ::
  "bool \<Rightarrow> ledger \<Rightarrow> tag_row \<Rightarrow> result_row \<Rightarrow> (exn + tagged_result_row) \<times> ledger" where
  "TaggedResult_get_or_create up db tag result =
     (case get_or_create up
             (\<lambda>l. tr_tag l = t_id tag \<and> tr_result l = r_id result)
             (\<lambda>l. tr_tag l = t_id tag \<and> tr_result l = r_id result)
             \<lparr>tr_id = fresh_id (map tr_id (tagged_results db)), tr_tag = t_id tag,
              tr_result = r_id result\<rparr>
             (tagged_results db) of
        (res, rows) \<Rightarrow> (res, db\<lparr>tagged_results := rows\<rparr>))"

text \<open>
  Modelled from the spec: the bulk deletes (\<^verbatim>\<open>Model.delete().where(...).execute()\<close>) on
  the models of \<^verbatim>\<open>project/crud.py\<close>; the TaggedResult rows of a deleted Result or Tag
  go with it.
\<close>

definition Result_delete_where :: "(result_row \<Rightarrow> bool) \<Rightarrow> ledger \<Rightarrow> ledger" where
  "Result_delete_where cond db =
     (let gone = map r_id (filter cond (results db))
      in db\<lparr>results := filter (\<lambda>r. \<not> cond r) (results db),
             tagged_results := filter (\<lambda>l. tr_result l \<notin> set gone) (tagged_results db)\<rparr>)"

definition Tag_delete_where :: "(tag_row \<Rightarrow> bool) \<Rightarrow> ledger \<Rightarrow> ledger" where
  "Tag_delete_where cond db =
     (let gone = map t_id (filter cond (tags db))
      in db\<lparr>tags := filter (\<lambda>t. \<not> cond t) (tags db),
             tagged_results := filter (\<lambda>l. tr_tag l \<notin> set gone) (tagged_results db)\<rparr>)"

text \<open>
  Modelled from the spec: the constraints of the three tables (unique keys and primary
  keys), as a predicate on a ledger state.
\<close>

definition ledger_ok :: "ledger \<Rightarrow> bool" where
  "ledger_ok db =
     (distinct (map (\<lambda>r. (r_object_id r, r_client_id r)) (results db)) \<and>
      distinct (map (\<lambda>t. (t_tag_name t, t_project_id t)) (tags db)) \<and>
      distinct (map (\<lambda>l. (tr_tag l, tr_result l)) (tagged_results db)) \<and>
      distinct (map r_id (results db)) \<and>
      distinct (map t_id (tags db)))"

subsection \<open>tag_object\<close>

text \<open>
  The three steps of \<^verbatim>\<open>tag_object\<close> at which the relational store is called. The
  parameter \<open>up\<close> of \<open>tag_object\<close> tells, for each step, whether the store answers.
\<close>

datatype ledger_step = EnsureResult | EnsureTag | EnsureLink

definition reachable :: "ledger_step \<Rightarrow> bool" where
  "reachable step = True"

definition effective_filename :: "string option \<Rightarrow> string" where
  "effective_filename filename =
     (case filename of None \<Rightarrow> ''data.bin'' | Some f \<Rightarrow> if f = [] then ''data.bin'' else f)"

text \<open>
  Modelled from the spec: the context manager \<^verbatim>\<open>crud.bind_to\<close>, which is not among the
  sources. The specification has the ledger writes of one call all-or-nothing: the
  block under \<^verbatim>\<open>with crud.bind_to(db)\<close> runs on the ledger, and when it raises, the
  ledger is as it was when the block was entered. \<open>bind_to db run\<close> takes the ledger at
  the entry of the block and the outcome of the block. (The blocks of the other
  handlers are modelled without a failure inside them, so the scope is left out
  there.)
\<close>

definition bind_to :: "ledger \<Rightarrow> ('e + 'a) \<times> ledger \<Rightarrow> ('e + 'a) \<times> ledger" where
  "bind_to db run =
     (case run of
        (Inl e, _) \<Rightarrow> (Inl e, db)
      | (Inr x, db') \<Rightarrow> (Inr x, db'))"

text \<open>
  The block of \<^verbatim>\<open>tag_object\<close> under \<^verbatim>\<open>with crud.bind_to(db)\<close>: three create-if-absent
  calls in a row. Only the IntegrityError of the first is caught, and raised again as
  the 400 of a filename conflict; the block itself undoes nothing.
\<close>

definition tag_object_block ::
  "(ledger_step \<Rightarrow> bool) \<Rightarrow> string \<Rightarrow> ledger \<Rightarrow> string \<Rightarrow> string \<Rightarrow> string \<Rightarrow> string option
     \<Rightarrow> (error + unit) \<times> ledger" where
  "tag_object_block up tag db project_id client_id object_id filename =
     (case Result_get_or_create (up EnsureResult) db client_id object_id
             (effective_filename filename) of
        (Inl IntegrityError, db1) \<Rightarrow> (Inl FilenameConflict, db1)
      | (Inl e, db1) \<Rightarrow> (Inl (Uncaught e), db1)
      | (Inr result, db1) \<Rightarrow>
          (case Tag_get_or_create (up EnsureTag) db1 tag project_id of
             (Inl e, db2) \<Rightarrow> (Inl (Uncaught e), db2)
           | (Inr tag_row, db2) \<Rightarrow>
               (case TaggedResult_get_or_create (up EnsureLink) db2 tag_row result of
                  (Inl e, db3) \<Rightarrow> (Inl (Uncaught e), db3)
                | (Inr _, db3) \<Rightarrow> (Inr (), db3))))"

definition tag_object ::
  "(ledger_step \<Rightarrow> bool) \<Rightarrow> string \<Rightarrow> ledger \<Rightarrow> string \<Rightarrow> string \<Rightarrow> string \<Rightarrow> string option
     \<Rightarrow> (error + unit) \<times> ledger" where
  "tag_object up tag db project_id client_id object_id filename =
     (if \<not> is_valid_tag tag then (Inl InvalidTag, db)
      else bind_to db (tag_object_block up tag db project_id client_id object_id filename))"

text \<open>The rows a tagging request is about, for counting them.\<close>

definition results_for :: "ledger \<Rightarrow> string \<Rightarrow> string \<Rightarrow> result_row list" where
  "results_for db object_id client_id =
     filter (\<lambda>r. r_object_id r = object_id \<and> r_client_id r = client_id) (results db)"

definition tags_for :: "ledger \<Rightarrow> string \<Rightarrow> string \<Rightarrow> tag_row list" where
  "tags_for db tag_name project_id =
     filter (\<lambda>t. t_tag_name t = tag_name \<and> t_project_id t = project_id) (tags db)"

definition links_for :: "ledger \<Rightarrow> string \<Rightarrow> string \<Rightarrow> string \<Rightarrow> string \<Rightarrow> tagged_result_row list" where
  "links_for db tag_name project_id object_id client_id =
     filter (\<lambda>l. tr_tag l \<in> set (map t_id (tags_for db tag_name project_id)) \<and>
                 tr_result l \<in> set (map r_id (results_for db object_id client_id)))
            (tagged_results db)"

section \<open>Object store\<close>

text \<open>
  The object store client is a library; its calls are modelled by what they do to a
  bucket: an association list from object names to contents. \<open>fault\<close> is the error code
  the store answers every call with while it is out of order (\<open>None\<close>: in order). The
  handlers use one bucket, so the bucket name is left out.
\<close>

type_synonym bytes = "8 word list"

record object_store =
  objects :: "(string \<times> bytes) list"
  fault :: "string option"

definition get_object :: "object_store \<Rightarrow> string \<Rightarrow> string + bytes" where
  "get_object st name =
     (case fault st of
        Some code \<Rightarrow> Inl code
      | None \<Rightarrow> (case map_of (objects st) name of None \<Rightarrow> Inl ''NoSuchKey'' | Some data \<Rightarrow> Inr data))"

definition put_object :: "object_store \<Rightarrow> string \<Rightarrow> bytes \<Rightarrow> string + object_store" where
  "put_object st name data =
     (case fault st of
        Some code \<Rightarrow> Inl code
      | None \<Rightarrow> Inr (st\<lparr>objects := filter (\<lambda>(n, _). n \<noteq> name) (objects st) @ [(name, data)]\<rparr>))"

definition remove_object :: "object_store \<Rightarrow> string \<Rightarrow> string + object_store" where
  "remove_object st name =
     (case fault st of
        Some code \<Rightarrow> Inl code
      | None \<Rightarrow> Inr (st\<lparr>objects := filter (\<lambda>(n, _). n \<noteq> name) (objects st)\<rparr>))"

definition startswith :: "string \<Rightarrow> string \<Rightarrow> bool" where
  "startswith s p = (take (length p) s = p)"

text \<open>
  Listing by prefix as the handler calls it, not recursive: an object whose name goes
  on past a further \<open>/\<close> after the prefix is listed as the directory that holds it.
  The store lists the names in the order of its keys; here they come in the order of
  the association list, and nothing below depends on the order.
\<close>

definition listed_name :: "string \<Rightarrow> string \<Rightarrow> string" where
  "listed_name p name =
     (let rest = drop (length p) name
      in if CHR ''/'' \<in> set rest then p @ takeWhile (\<lambda>c. c \<noteq> CHR ''/'') rest @ ''/'' else name)"

definition list_objects :: "object_store \<Rightarrow> string \<Rightarrow> string + string list" where
  "list_objects st p =
     (case fault st of
        Some code \<Rightarrow> Inl code
      | None \<Rightarrow> Inr (remdups (map (listed_name p) (filter (\<lambda>n. startswith n p) (map fst (objects st))))))"

definition object_path :: "string \<Rightarrow> string \<Rightarrow> string" where
  "object_path project_id object_id = ''local/'' @ project_id @ ''/'' @ object_id"

definition project_prefix :: "string \<Rightarrow> string" where
  "project_prefix project_id = ''local/'' @ project_id @ ''/''"

section \<open>Hub\<close>

text \<open>
  The hub client is a library: an analysis resolves to its project, a project is found
  or not, a node is found or not and may carry a public key.
\<close>

record hub =
  get_analysis :: "string \<Rightarrow> string option"
  get_project :: "string \<Rightarrow> bool"
  get_node :: "string \<Rightarrow> string option option"

record settings =
  hub_adapter_client_id :: string

record world =
  minio :: object_store
  db :: ledger

record upload_file =
  file_filename :: "string option"
  file_content :: bytes

section \<open>Local results (project/routers/local.py)\<close>

definition get_project_id_for_analysis_or_raise :: "hub \<Rightarrow> string \<Rightarrow> error + string" where
  "get_project_id_for_analysis_or_raise core_client analysis_id =
     (case get_analysis core_client analysis_id of
        None \<Rightarrow> Inl AnalysisNotFound
      | Some project_id \<Rightarrow> Inr project_id)"

definition get_object_from_s3 :: "object_store \<Rightarrow> string \<Rightarrow> string \<Rightarrow> error + bytes" where
  "get_object_from_s3 st project_id object_id =
     (case get_object st (object_path project_id object_id) of
        Inr data \<Rightarrow> Inr data
      | Inl code \<Rightarrow> if code = ''NoSuchKey'' then Inl ObjectNotFound else Inl ObjectStoreError)"

text \<open>
  \<^verbatim>\<open>submit_intermediate_result_to_local\<close>. The identifier of the new object is drawn at
  random in the source; here it is the argument \<open>object_id\<close>.
\<close>

definition submit_intermediate_result_to_local ::
  "(ledger_step \<Rightarrow> bool) \<Rightarrow> hub \<Rightarrow> string \<Rightarrow> upload_file \<Rightarrow> string option \<Rightarrow> string \<Rightarrow> world
     \<Rightarrow> (error + string) \<times> world" where
  "submit_intermediate_result_to_local up core_client client_id file tag object_id w =
     (case get_project_id_for_analysis_or_raise core_client client_id of
        Inl e \<Rightarrow> (Inl e, w)
      | Inr project_id \<Rightarrow>
          (case (case tag of
                   None \<Rightarrow> (Inr (), db w)
                 | Some t \<Rightarrow> tag_object up t (db w) project_id client_id object_id (file_filename file)) of
             (Inl e, db1) \<Rightarrow> (Inl e, w\<lparr>db := db1\<rparr>)
           | (Inr _, db1) \<Rightarrow>
               (case put_object (minio w) (object_path project_id object_id) (file_content file) of
                  Inl code \<Rightarrow> (Inl (Uncaught (S3Error code)), w\<lparr>db := db1\<rparr>)
                | Inr st \<Rightarrow> (Inr object_id, \<lparr>minio = st, db = db1\<rparr>))))"

text \<open>The last component of an object name: \<^verbatim>\<open>name.split("/")[-1]\<close>.\<close>

definition last_segment :: "string \<Rightarrow> string" where
  "last_segment name = rev (takeWhile (\<lambda>c. c \<noteq> CHR ''/'') (rev name))"

text \<open>
  The loop of \<^verbatim>\<open>delete_local_results\<close>: every listed object is removed from the store
  and the last component of its name is collected.
\<close>

fun remove_listed :: "object_store \<Rightarrow> string list \<Rightarrow> string list \<Rightarrow> (error + string list) \<times> object_store" where
  "remove_listed st [] object_ids = (Inr object_ids, st)"
| "remove_listed st (name # names) object_ids =
     (case remove_object st name of
        Inl code \<Rightarrow> (Inl (Uncaught (S3Error code)), st)
      | Inr st' \<Rightarrow> remove_listed st' names (object_ids @ [last_segment name]))"

definition remove_project_objects :: "object_store \<Rightarrow> string \<Rightarrow> (error + string list) \<times> object_store" where
  "remove_project_objects st project_id =
     (case list_objects st (project_prefix project_id) of
        Inl code \<Rightarrow> (Inl (Uncaught (S3Error code)), st)
      | Inr names \<Rightarrow> remove_listed st names [])"

definition purge_ledger :: "ledger \<Rightarrow> string \<Rightarrow> string list \<Rightarrow> ledger" where
  "purge_ledger d project_id object_ids =
     Tag_delete_where (\<lambda>t. t_project_id t = project_id)
       (Result_delete_where (\<lambda>r. r_object_id r \<in> set object_ids) d)"

definition delete_local_results ::
  "settings \<Rightarrow> hub \<Rightarrow> string \<Rightarrow> string \<Rightarrow> world \<Rightarrow> (error + unit) \<times> world" where
  "delete_local_results cfg core_client project_id client_id w =
     (if client_id \<noteq> hub_adapter_client_id cfg then (Inl Forbidden, w)
      else if get_project core_client project_id then (Inl ProjectStillOnHub, w)
      else
        (case remove_project_objects (minio w) project_id of
           (Inl e, st) \<Rightarrow> (Inl e, w\<lparr>minio := st\<rparr>)
         | (Inr object_ids, st) \<Rightarrow>
             (Inr (), \<lparr>minio = st, db = purge_ledger (db w) project_id object_ids\<rparr>)))"

text \<open>
  \<^verbatim>\<open>create_object_tag\<close> answers with the filename of the Result row of the object and
  the client (the URL of the answer is left out).
\<close>

definition create_object_tag ::
  "(ledger_step \<Rightarrow> bool) \<Rightarrow> hub \<Rightarrow> string \<Rightarrow> string \<Rightarrow> string \<Rightarrow> string option \<Rightarrow> world
     \<Rightarrow> (error + string) \<times> world" where
  "create_object_tag up core_client tag_name object_id client_id filename w =
     (case get_project_id_for_analysis_or_raise core_client client_id of
        Inl e \<Rightarrow> (Inl e, w)
      | Inr project_id \<Rightarrow>
          (case get_object_from_s3 (minio w) project_id object_id of
             Inl e \<Rightarrow> (Inl e, w)
           | Inr _ \<Rightarrow>
               (case tag_object up tag_name (db w) project_id client_id object_id filename of
                  (Inl e, db1) \<Rightarrow> (Inl e, w\<lparr>db := db1\<rparr>)
                | (Inr _, db1) \<Rightarrow>
                    (case find (\<lambda>r. r_object_id r = object_id \<and> r_client_id r = client_id) (results db1) of
                       None \<Rightarrow> (Inl (Uncaught DoesNotExist), w\<lparr>db := db1\<rparr>)
                     | Some result \<Rightarrow> (Inr (r_filename result), w\<lparr>db := db1\<rparr>)))))"


section \<open>Secure Channel Codec\<close>

text \<open>
  Modelled from the spec: the module \<^verbatim>\<open>project/crypto.py\<close> (\<^verbatim>\<open>encrypt_default\<close>,
  \<^verbatim>\<open>decrypt_default\<close>, the key loaders) is not among the sources. The key agreement with
  its key derivation and the authenticated cipher are library primitives, taken as
  the fields of a record; the codec around them is the layout of a unit: the nonce, of
  the fixed width of the cipher, immediately followed by the ciphertext and its tag, with
  no length prefix and no version byte. The nonce is drawn at random in the source;
  here it is an argument.
\<close>

record ('priv, 'pub, 'key) primitives =
  derive_shared_key :: "'priv \<Rightarrow> 'pub \<Rightarrow> 'key"
  aead_encrypt :: "'key \<Rightarrow> bytes \<Rightarrow> bytes \<Rightarrow> bytes"
  aead_decrypt :: "'key \<Rightarrow> bytes \<Rightarrow> bytes \<Rightarrow> bytes option"
  nonce_len :: nat
  load_ecdh_public_key_from_hex_string :: "string \<Rightarrow> 'pub option"

text \<open>
  Modelled from the spec: the layout of a unit, and the two entry points of
  \<^verbatim>\<open>project/crypto.py\<close> that the handlers call with their private key and the public
  key of the peer.
\<close>

definition encrypt_unit :: "('priv, 'pub, 'key) primitives \<Rightarrow> 'key \<Rightarrow> bytes \<Rightarrow> bytes \<Rightarrow> bytes" where
  "encrypt_unit cs key nonce plaintext = nonce @ aead_encrypt cs key nonce plaintext"

definition decrypt_unit :: "('priv, 'pub, 'key) primitives \<Rightarrow> 'key \<Rightarrow> bytes \<Rightarrow> bytes option" where
  "decrypt_unit cs key unit =
     aead_decrypt cs key (take (nonce_len cs) unit) (drop (nonce_len cs) unit)"

definition encrypt_default ::
  "('priv, 'pub, 'key) primitives \<Rightarrow> bytes \<Rightarrow> 'priv \<Rightarrow> 'pub \<Rightarrow> bytes \<Rightarrow> bytes" where
  "encrypt_default cs nonce private_key peer_public_key data =
     encrypt_unit cs (derive_shared_key cs private_key peer_public_key) nonce data"

definition decrypt_default ::
  "('priv, 'pub, 'key) primitives \<Rightarrow> 'priv \<Rightarrow> 'pub \<Rightarrow> bytes \<Rightarrow> bytes option" where
  "decrypt_default cs private_key peer_public_key data =
     decrypt_unit cs (derive_shared_key cs private_key peer_public_key) data"

text \<open>
  A small instance of the primitives, to run the codec on: a Diffie-Hellman exchange
  modulo 23 with generator 2, and a cipher that adds the key to every byte and
  appends the key and the nonce as a tag.
\<close>

definition toy_encrypt :: "nat \<Rightarrow> bytes \<Rightarrow> bytes \<Rightarrow> bytes" where
  "toy_encrypt key nonce plaintext = map (\<lambda>b. b + of_nat key) plaintext @ of_nat key # nonce"

definition toy_decrypt :: "nat \<Rightarrow> bytes \<Rightarrow> bytes \<Rightarrow> bytes option" where
  "toy_decrypt key nonce data =
     (let n = length data - Suc (length nonce)
      in if Suc (length nonce) \<le> length data \<and> drop n data = of_nat key # nonce
         then Some (map (\<lambda>b. b - of_nat key) (take n data))
         else None)"

definition toy :: "(nat, nat, nat) primitives" where
  "toy = \<lparr>derive_shared_key = (\<lambda>private_key peer_public_key. peer_public_key ^ private_key mod 23),
          aead_encrypt = toy_encrypt,
          aead_decrypt = toy_decrypt,
          nonce_len = 2,
          load_ecdh_public_key_from_hex_string = (\<lambda>s. Some (length s))\<rparr>"

section \<open>Intermediate results (project/routers/intermediate.py)\<close>

text \<open>
  The storage client of the hub is a library: a bucket file is found or not, and
  streaming it yields its chunks in order.
\<close>

record storage =
  get_bucket_file :: "string \<Rightarrow> bool"
  stream_bucket_file :: "string \<Rightarrow> bytes list"

text \<open>
  The body of a streaming answer: the chunks sent, and whether the stream was cut by
  an exception of the generator.
\<close>

datatype response = StreamingResponse "bytes list" bool

fun delivered :: "error + response \<Rightarrow> bytes list" where
  "delivered (Inl e) = []"
| "delivered (Inr (StreamingResponse chunks stopped)) = chunks"

definition get_remote_node_public_key ::
  "('priv, 'pub, 'key) primitives \<Rightarrow> hub \<Rightarrow> string \<Rightarrow> error + 'pub" where
  "get_remote_node_public_key cs core_client remote_node_id =
     (case get_node core_client remote_node_id of
        None \<Rightarrow> Inl RemoteNodeNotFound
      | Some None \<Rightarrow> Inl NoPublicKey
      | Some (Some public_key) \<Rightarrow>
          (case load_ecdh_public_key_from_hex_string cs public_key of
             None \<Rightarrow> Inl (Uncaught ValueError)
           | Some key \<Rightarrow> Inr key))"

fun decrypt_stream :: "(bytes \<Rightarrow> bytes option) \<Rightarrow> bytes list \<Rightarrow> bytes list \<times> bool" where
  "decrypt_stream f [] = ([], False)"
| "decrypt_stream f (b # bs) =
     (case f b of
        None \<Rightarrow> ([], True)
      | Some plain \<Rightarrow> (case decrypt_stream f bs of (sent, stopped) \<Rightarrow> (plain # sent, stopped)))"

definition retrieve_intermediate_result_from_hub ::
  "('priv, 'pub, 'key) primitives \<Rightarrow> hub \<Rightarrow> storage \<Rightarrow> 'priv \<Rightarrow> string \<Rightarrow> string option
     \<Rightarrow> error + response" where
  "retrieve_intermediate_result_from_hub cs core_client storage_client private_key object_id node_id =
     (if \<not> get_bucket_file storage_client object_id then Inl ObjectNotFound
      else
        (case node_id of
           None \<Rightarrow> Inr (StreamingResponse (stream_bucket_file storage_client object_id) False)
         | Some node \<Rightarrow>
             (case stream_bucket_file storage_client object_id of
                [] \<Rightarrow> Inl (Uncaught StopIteration)
              | first_bytes # _ \<Rightarrow>
                  (case get_remote_node_public_key cs core_client node of
                     Inl e \<Rightarrow> Inl e
                   | Inr remote_node_public_key \<Rightarrow>
                       (case decrypt_default cs private_key remote_node_public_key first_bytes of
                          None \<Rightarrow> Inl DecryptionNotPossible
                        | Some _ \<Rightarrow>
                            (case decrypt_stream (decrypt_default cs private_key remote_node_public_key)
                                    (stream_bucket_file storage_client object_id) of
                               (sent, stopped) \<Rightarrow> Inr (StreamingResponse sent stopped)))))))"


section \<open>The shape of the bucket, and stores to run the handlers on\<close>

text \<open>
  The handlers store every object under \<^verbatim>\<open>local/{project_id}/{object_id}\<close> with a UUID as
  object_id, so no object name under the prefix of a project goes on past a further
  \<open>/\<close>. \<open>flat_under st p\<close> says so of the store \<open>st\<close> and the prefix \<open>p\<close>.
\<close>

definition flat_under :: "object_store \<Rightarrow> string \<Rightarrow> bool" where
  "flat_under st p =
     list_all (\<lambda>n. startswith n p \<longrightarrow> CHR ''/'' \<notin> set (drop (length p) n)) (map fst (objects st))"

definition demo_hub :: hub where
  "demo_hub =
     \<lparr>get_analysis = (\<lambda>a. if a = ''analysis-1'' then Some ''project-1'' else None),
      get_project = (\<lambda>p. p = ''project-1''),
      get_node = (\<lambda>n. if n = ''node-1'' then Some (Some ''04abcd'')
                       else if n = ''node-2'' then Some None else None)\<rparr>"

text \<open>The hub after project-1 and its analyses were removed.\<close>

definition hub_project_gone :: hub where
  "hub_project_gone =
     \<lparr>get_analysis = (\<lambda>a. None), get_project = (\<lambda>p. False), get_node = (\<lambda>n. None)\<rparr>"

definition demo_cfg :: settings where
  "demo_cfg = \<lparr>hub_adapter_client_id = ''hub-adapter''\<rparr>"

definition empty_world :: world where
  "empty_world = \<lparr>minio = \<lparr>objects = [], fault = None\<rparr>, db = empty_ledger\<rparr>"

text \<open>
  A world after project-0 was removed from the hub: two of its objects are still in the
  bucket, one of them tagged; an object of project-1 is there too.
\<close>

definition leftover_world :: world where
  "leftover_world =
     \<lparr>minio = \<lparr>objects = [(''local/project-0/o1'', [1, 2]), (''local/project-1/o3'', [5]),
                           (''local/project-0/o2'', [3])],
               fault = None\<rparr>,
      db = \<lparr>results = [\<lparr>r_id = 1, r_client_id = ''analysis-0'', r_object_id = ''o1'',
                          r_filename = ''data.bin''\<rparr>,
                       \<lparr>r_id = 2, r_client_id = ''analysis-1'', r_object_id = ''o3'',
                          r_filename = ''data.bin''\<rparr>],
            tags = [\<lparr>t_id = 1, t_tag_name = ''t1'', t_project_id = ''project-0''\<rparr>,
                    \<lparr>t_id = 2, t_tag_name = ''t1'', t_project_id = ''project-1''\<rparr>],
            tagged_results = [\<lparr>tr_id = 1, tr_tag = 1, tr_result = 1\<rparr>,
                              \<lparr>tr_id = 2, tr_tag = 2, tr_result = 2\<rparr>]\<rparr>\<rparr>"

text \<open>
  A storage client with two bucket files: file-1 streams one unit, encrypted by the toy
  cipher under the key 16; file-0 exists and streams no chunk.
\<close>

definition demo_storage :: storage where
  "demo_storage =
     \<lparr>get_bucket_file = (\<lambda>obj. obj = ''file-1'' \<or> obj = ''file-0''),
      stream_bucket_file = (\<lambda>obj. if obj = ''file-1'' then [[7, 8, 17, 18, 19, 16, 7, 8]] else [])\<rparr>"

section \<open>The tag pattern accepts the grammar of the specification\<close>

lemma in_alnum: "in_class alnum_lower c = is_lower_alnum c"
  by (simp add: in_class_def alnum_lower_def is_lower_alnum_def)

lemma in_alnum_hyphen: "in_class alnum_lower_hyphen c = (is_lower_alnum c \<or> c = CHR ''-'')"
  by (auto simp add: in_class_def alnum_lower_hyphen_def is_lower_alnum_def)

lemma mem_remainders_Class:
  "r \<in> set (remainders (Class items) s) \<longleftrightarrow> (\<exists>c. s = c # r \<and> in_class items c)"
  by (cases s) auto

lemma mem_repeat_single:
  assumes f: "\<And>s r. r \<in> set (f s) \<longleftrightarrow> (\<exists>c. s = c # r \<and> P c)"
  shows "r \<in> set (repeat_from f lo hi s) \<longleftrightarrow>
     (\<exists>k. lo \<le> k \<and> k \<le> hi \<and> k \<le> length s \<and> list_all P (take k s) \<and> r = drop k s)"
proof (induction hi arbitrary: lo s)
  case 0
  then show ?case by auto
next
  case (Suc hi)
  have step: "r \<in> set (repeat_from f lo (Suc hi) s) \<longleftrightarrow>
      (\<exists>c cs. s = c # cs \<and> P c \<and> r \<in> set (repeat_from f (lo - 1) hi cs)) \<or> (lo = 0 \<and> r = s)"
    by (auto simp: f)
  show ?case
  proof
    assume "r \<in> set (repeat_from f lo (Suc hi) s)"
    then consider (more) c cs where "s = c # cs" "P c" "r \<in> set (repeat_from f (lo - 1) hi cs)"
      | (stop) "lo = 0" "r = s" using step by blast
    then show "\<exists>k. lo \<le> k \<and> k \<le> Suc hi \<and> k \<le> length s \<and> list_all P (take k s) \<and> r = drop k s"
    proof cases
      case more
      then obtain k where k: "lo - 1 \<le> k" "k \<le> hi" "k \<le> length cs"
        "list_all P (take k cs)" "r = drop k cs"
        using Suc.IH[of "lo - 1" cs] by blast
      show ?thesis using k more by (intro exI[of _ "Suc k"]) auto
    next
      case stop
      then show ?thesis by (intro exI[of _ 0]) simp
    qed
  next
    assume "\<exists>k. lo \<le> k \<and> k \<le> Suc hi \<and> k \<le> length s \<and> list_all P (take k s) \<and> r = drop k s"
    then obtain k where k: "lo \<le> k" "k \<le> Suc hi" "k \<le> length s"
      "list_all P (take k s)" "r = drop k s" by blast
    show "r \<in> set (repeat_from f lo (Suc hi) s)"
    proof (cases k)
      case 0
      then show ?thesis using k step by simp
    next
      case (Suc j)
      then obtain c cs where s: "s = c # cs" using k(3) by (cases s) auto
      have "lo - 1 \<le> j \<and> j \<le> hi \<and> j \<le> length cs \<and> list_all P (take j cs) \<and> r = drop j cs"
        using k s Suc by auto
      then have "r \<in> set (repeat_from f (lo - 1) hi cs)"
        using Suc.IH[of "lo - 1" cs] by blast
      moreover have "P c" using k(4) s Suc by simp
      ultimately show ?thesis using step s by blast
    qed
  qed
qed

lemma mem_repeat_Class:
  "r \<in> set (remainders (Repeat lo hi (Class items)) s) \<longleftrightarrow>
     (\<exists>k. lo \<le> k \<and> k \<le> hi \<and> k \<le> length s \<and> list_all (in_class items) (take k s) \<and> r = drop k s)"
  unfolding remainders.simps(4)
  by (rule mem_repeat_single) (rule mem_remainders_Class)

lemma mem_remainders_Seq:
  "r \<in> set (remainders (Seq a b) s) \<longleftrightarrow> (\<exists>u \<in> set (remainders a s). r \<in> set (remainders b u))"
  by simp

lemma short_branch:
  "[] \<in> set (remainders (Repeat 1 2 (Class alnum_lower)) t) \<longleftrightarrow>
     (length t = 1 \<or> length t = 2) \<and> list_all is_lower_alnum t"
proof -
  have "[] \<in> set (remainders (Repeat 1 2 (Class alnum_lower)) t) \<longleftrightarrow>
     (\<exists>k. 1 \<le> k \<and> k \<le> 2 \<and> k \<le> length t \<and> list_all is_lower_alnum (take k t) \<and> [] = drop k t)"
    unfolding mem_repeat_Class by (simp add: in_alnum[abs_def])
  also have "\<dots> \<longleftrightarrow> (\<exists>k. 1 \<le> k \<and> k \<le> 2 \<and> k = length t \<and> list_all is_lower_alnum t)"
    by auto
  also have "\<dots> \<longleftrightarrow> (length t = 1 \<or> length t = 2) \<and> list_all is_lower_alnum t"
    by auto
  finally show ?thesis .
qed

lemma long_branch:
  "[] \<in> set (remainders (Seq (Class alnum_lower)
              (Seq (Repeat 0 30 (Class alnum_lower_hyphen)) (Class alnum_lower))) t) \<longleftrightarrow>
     (2 \<le> length t \<and> length t \<le> 32 \<and>
       list_all (\<lambda>c. is_lower_alnum c \<or> c = CHR ''-'') t \<and>
       is_lower_alnum (hd t) \<and> is_lower_alnum (last t))"
  (is "?L \<longleftrightarrow> ?R")
proof (cases t)
  case Nil
  then show ?thesis by simp
next
  case (Cons c cs)
  let ?H = "\<lambda>c. is_lower_alnum c \<or> c = CHR ''-''"
  have "?L \<longleftrightarrow>
      (\<exists>u \<in> set (remainders (Class alnum_lower) t).
         \<exists>v \<in> set (remainders (Repeat 0 30 (Class alnum_lower_hyphen)) u).
           [] \<in> set (remainders (Class alnum_lower) v))"
    by (simp only: mem_remainders_Seq)
  also have "\<dots> \<longleftrightarrow>
      (\<exists>u. (\<exists>c'. t = c' # u \<and> in_class alnum_lower c') \<and>
         (\<exists>v. (\<exists>k. 0 \<le> k \<and> k \<le> 30 \<and> k \<le> length u \<and>
                  list_all (in_class alnum_lower_hyphen) (take k u) \<and> v = drop k u) \<and>
              (\<exists>d. v = d # [] \<and> in_class alnum_lower d)))"
    by (simp only: Bex_def mem_repeat_Class mem_remainders_Class)
  also have "\<dots> \<longleftrightarrow> is_lower_alnum c \<and>
      (\<exists>k d. k \<le> 30 \<and> k \<le> length cs \<and> list_all ?H (take k cs)
          \<and> drop k cs = [d] \<and> is_lower_alnum d)"
    using Cons by (auto simp: in_alnum in_alnum_hyphen[abs_def]) metis
  also have "\<dots> \<longleftrightarrow> ?R"
  proof
    assume "is_lower_alnum c \<and>
      (\<exists>k d. k \<le> 30 \<and> k \<le> length cs \<and> list_all ?H (take k cs)
          \<and> drop k cs = [d] \<and> is_lower_alnum d)"
    then obtain k d where h: "is_lower_alnum c" "k \<le> 30" "k \<le> length cs"
      "list_all ?H (take k cs)" "drop k cs = [d]" "is_lower_alnum d"
      by blast
    have cs: "cs = take k cs @ [d]" using h(5) by (metis append_take_drop_id)
    have "length (drop k cs) = 1" using h(5) by simp
    then have len: "length cs = k + 1" using h(3) by simp
    have "list_all ?H cs"
      using h(4,6) by (subst cs) simp
    moreover have "last cs = d" by (subst cs) simp
    then have "last t = d" using Cons cs by auto
    ultimately show ?R using Cons h len by simp
  next
    assume R: ?R
    then have ne: "cs \<noteq> []" using Cons by auto
    have lastt: "last t = last cs" using Cons ne by simp
    let ?k = "length cs - 1"
    have tk: "take ?k cs = butlast cs" by (simp add: butlast_conv_take)
    have "drop (length (butlast cs)) (butlast cs @ [last cs]) = [last cs]" by simp
    then have dk: "drop ?k cs = [last cs]"
      unfolding append_butlast_last_id[OF ne] by simp
    have "list_all ?H (butlast cs)"
      using R Cons by (auto simp: list_all_iff dest: in_set_butlastD)
    then show "is_lower_alnum c \<and>
      (\<exists>k d. k \<le> 30 \<and> k \<le> length cs \<and> list_all ?H (take k cs)
          \<and> drop k cs = [d] \<and> is_lower_alnum d)"
      using R Cons lastt tk dk by (intro conjI exI[of _ ?k] exI[of _ "last cs"]) auto
  qed
  finally show ?thesis .
qed

lemma is_valid_tag_iff: "is_valid_tag t \<longleftrightarrow> tag_grammar t"
proof -
  have "is_valid_tag t \<longleftrightarrow> [] \<in> set (remainders (Repeat 1 2 (Class alnum_lower)) t) \<or>
     [] \<in> set (remainders (Seq (Class alnum_lower)
              (Seq (Repeat 0 30 (Class alnum_lower_hyphen)) (Class alnum_lower))) t)"
    unfolding is_valid_tag_def fullmatch_def TAG_PATTERN_def remainders.simps(3) by simp
  then show ?thesis
    unfolding short_branch long_branch tag_grammar_def by simp
qed

text \<open>
  C3. For every string \<open>t\<close>, \<open>is_valid_tag\<close> (the full match of the source's pattern)
  accepts \<open>t\<close> exactly when \<open>t\<close> is in the grammar of the specification: one or two
  lowercase alphanumerics, or 2 to 32 lowercase alphanumerics and hyphens starting and
  ending with an alphanumeric. The tags "a", "0", "result-1" and "a" followed by thirty
  hyphens and "a" are accepted; the empty string, " ", "-", "-ab", "ab-" and thirty-three
  times "a" are rejected. A rejected tag makes \<open>tag_object\<close> fail with InvalidTag with
  the ledger as it was, whatever the state of the store.
\<close>

theorem is_valid_tag_grammar:
  "(is_valid_tag t \<longleftrightarrow> tag_grammar t) \<and>
   is_valid_tag ''a'' \<and> is_valid_tag ''0'' \<and> is_valid_tag ''result-1'' \<and>
   is_valid_tag (''a'' @ replicate 30 (CHR ''-'') @ ''a'') \<and>
   \<not> is_valid_tag [] \<and> \<not> is_valid_tag '' '' \<and> \<not> is_valid_tag ''-'' \<and>
   \<not> is_valid_tag ''-ab'' \<and> \<not> is_valid_tag ''ab-'' \<and>
   \<not> is_valid_tag (replicate 33 (CHR ''a'')) \<and>
   (\<not> is_valid_tag t \<longrightarrow>
      tag_object up t d project_id client_id object_id filename = (Inl InvalidTag, d))"
proof -
  have examples:
    "is_valid_tag ''a''" "is_valid_tag ''0''" "is_valid_tag ''result-1''"
    "is_valid_tag (''a'' @ replicate 30 (CHR ''-'') @ ''a'')"
    "\<not> is_valid_tag []" "\<not> is_valid_tag '' ''" "\<not> is_valid_tag ''-''"
    "\<not> is_valid_tag ''-ab''" "\<not> is_valid_tag ''ab-''"
    "\<not> is_valid_tag (replicate 33 (CHR ''a''))"
    by (simp_all add: is_valid_tag_iff tag_grammar_def is_lower_alnum_def eval_nat_numeral)
  have rejected: "\<not> is_valid_tag t \<longrightarrow>
      tag_object up t d project_id client_id object_id filename = (Inl InvalidTag, d)"
    by (simp add: tag_object_def)
  show ?thesis
    using examples rejected is_valid_tag_iff[of t] by blast
qed

theorem is_valid_tag_grammar_witness:
  "\<not> is_valid_tag ''-ab'' \<and> \<not> tag_grammar ''-ab'' \<and>
   tag_object reachable ''-ab'' empty_ledger ''p'' ''c'' ''o'' None = (Inl InvalidTag, empty_ledger)"
  using is_valid_tag_grammar[of "''-ab''" reachable empty_ledger "''p''" "''c''" "''o''" None]
  by blast


section \<open>The create-if-absent steps\<close>

lemma find_append:
  "find P (xs @ ys) = (case find P xs of None \<Rightarrow> find P ys | Some x \<Rightarrow> Some x)"
  by (induction xs) auto

lemma find_None_iff_list_ex: "find P xs = None \<longleftrightarrow> \<not> list_ex P xs"
  by (induction xs) auto

lemma fold_max_ge: "a \<le> fold max ids (a::nat)"
  by (induction ids arbitrary: a) (auto intro: order_trans[OF max.cobounded2])

lemma fold_max_mem: "x \<in> set ids \<Longrightarrow> x \<le> fold max ids (a::nat)"
proof (induction ids arbitrary: a)
  case Nil
  then show ?case by simp
next
  case (Cons y ys)
  show ?case
  proof (cases "x = y")
    case True
    have "y \<le> max y a" by simp
    also have "\<dots> \<le> fold max ys (max y a)" by (rule fold_max_ge)
    finally show ?thesis using True by simp
  next
    case False
    then show ?thesis using Cons by simp
  qed
qed

lemma fresh_id_notin: "fresh_id ids \<notin> set ids"
  using fold_max_mem[of "fresh_id ids" ids 0] by (auto simp: fresh_id_def)

lemma distinct_key_unique:
  "distinct (map f xs) \<Longrightarrow> x \<in> set xs \<Longrightarrow> y \<in> set xs \<Longrightarrow> f x = f y \<Longrightarrow> x = y"
  by (meson distinct_map inj_onD)

lemma filter_key_single:
  "distinct (map f xs) \<Longrightarrow> x \<in> set xs \<Longrightarrow> filter (\<lambda>y. f y = f x) xs = [x]"
proof (induction xs)
  case Nil
  then show ?case by simp
next
  case (Cons a xs)
  show ?case
  proof (cases "a = x")
    case True
    have "\<forall>y \<in> set xs. f y \<noteq> f x" using Cons.prems(1) True by (auto simp: image_iff)
    then have "filter (\<lambda>y. f y = f x) xs = []" by (simp add: filter_empty_conv)
    then show ?thesis using True by simp
  next
    case False
    then have "x \<in> set xs" using Cons.prems by simp
    moreover have "f a \<noteq> f x" using Cons.prems(1) calculation by auto
    ultimately show ?thesis using Cons by simp
  qed
qed

lemma get_or_create_Inr:
  assumes "get_or_create up same clashes new rows = (Inr row, rows')" and "same new"
  shows "find same rows' = Some row"
    and "rows' = rows \<or> (rows' = rows @ [new] \<and> row = new \<and> \<not> list_ex clashes rows \<and> \<not> list_ex same rows)"
proof -
  have up using assms(1) by (auto simp: get_or_create_def split: if_splits)
  show "find same rows' = Some row"
  proof (cases "find same rows")
    case None
    then show ?thesis using assms \<open>up\<close>
      by (auto simp: get_or_create_def find_append split: if_splits)
  next
    case (Some r)
    then show ?thesis using assms \<open>up\<close> by (auto simp: get_or_create_def)
  qed
  show "rows' = rows \<or> (rows' = rows @ [new] \<and> row = new \<and> \<not> list_ex clashes rows \<and> \<not> list_ex same rows)"
  proof (cases "find same rows")
    case None
    then have "\<not> list_ex same rows" by (simp add: find_None_iff_list_ex)
    then show ?thesis using assms \<open>up\<close> None
      by (auto simp: get_or_create_def split: if_splits)
  next
    case (Some r)
    then show ?thesis using assms \<open>up\<close> by (auto simp: get_or_create_def)
  qed
qed

lemma get_or_create_Inl:
  "get_or_create up same clashes new rows = (Inl e, rows') \<Longrightarrow> rows' = rows"
  by (auto simp: get_or_create_def split: if_splits option.splits)

lemma get_or_create_found:
  "find same rows = Some row \<Longrightarrow> get_or_create True same clashes new rows = (Inr row, rows)"
  by (simp add: get_or_create_def)

lemma get_or_create_same_key:
  "get_or_create True same same new rows = (res, rows') \<Longrightarrow> \<exists>row. res = Inr row"
  by (auto simp: get_or_create_def find_None_iff_list_ex split: option.splits if_splits)


lemma Result_get_or_create_Inl:
  "Result_get_or_create up d c obj f = (Inl e, d') \<Longrightarrow> d' = d"
  by (auto simp: Result_get_or_create_def split: prod.splits dest: get_or_create_Inl)

lemma Tag_get_or_create_Inl:
  "Tag_get_or_create up d n p = (Inl e, d') \<Longrightarrow> d' = d"
  by (auto simp: Tag_get_or_create_def split: prod.splits dest: get_or_create_Inl)

lemma TaggedResult_get_or_create_Inl:
  "TaggedResult_get_or_create up d t r = (Inl e, d') \<Longrightarrow> d' = d"
  by (auto simp: TaggedResult_get_or_create_def split: prod.splits dest: get_or_create_Inl)

lemma Result_get_or_create_Inr:
  assumes "Result_get_or_create up d c obj f = (Inr r, d')"
  shows "find (\<lambda>r. r_client_id r = c \<and> r_object_id r = obj \<and> r_filename r = f) (results d') = Some r"
    and "tags d' = tags d" and "tagged_results d' = tagged_results d"
    and "results d' = results d \<or>
         (results d' = results d @ [r] \<and> r_id r = fresh_id (map r_id (results d)) \<and>
          \<not> list_ex (\<lambda>r. r_object_id r = obj \<and> r_client_id r = c) (results d))"
proof -
  let ?new = "\<lparr>r_id = fresh_id (map r_id (results d)), r_client_id = c, r_object_id = obj, r_filename = f\<rparr>"
  let ?same = "\<lambda>r. r_client_id r = c \<and> r_object_id r = obj \<and> r_filename r = f"
  let ?clash = "\<lambda>r. r_object_id r = obj \<and> r_client_id r = c"
  obtain rows where g: "get_or_create up ?same ?clash ?new (results d) = (Inr r, rows)"
    and d': "d' = d\<lparr>results := rows\<rparr>"
    using assms by (auto simp: Result_get_or_create_def split: prod.splits)
  have s: "?same ?new" by simp
  show "find ?same (results d') = Some r" using get_or_create_Inr(1)[OF g s] d' by simp
  show "tags d' = tags d" "tagged_results d' = tagged_results d" using d' by simp_all
  show "results d' = results d \<or>
         (results d' = results d @ [r] \<and> r_id r = fresh_id (map r_id (results d)) \<and>
          \<not> list_ex ?clash (results d))"
    using get_or_create_Inr(2)[OF g s] d' by auto
qed

lemma Tag_get_or_create_Inr:
  assumes "Tag_get_or_create up d n p = (Inr t, d')"
  shows "find (\<lambda>t. t_tag_name t = n \<and> t_project_id t = p) (tags d') = Some t"
    and "results d' = results d" and "tagged_results d' = tagged_results d"
    and "tags d' = tags d \<or>
         (tags d' = tags d @ [t] \<and> t_id t = fresh_id (map t_id (tags d)) \<and>
          \<not> list_ex (\<lambda>t. t_tag_name t = n \<and> t_project_id t = p) (tags d))"
proof -
  let ?new = "\<lparr>t_id = fresh_id (map t_id (tags d)), t_tag_name = n, t_project_id = p\<rparr>"
  let ?same = "\<lambda>t. t_tag_name t = n \<and> t_project_id t = p"
  obtain rows where g: "get_or_create up ?same ?same ?new (tags d) = (Inr t, rows)"
    and d': "d' = d\<lparr>tags := rows\<rparr>"
    using assms by (auto simp: Tag_get_or_create_def split: prod.splits)
  have s: "?same ?new" by simp
  show "find ?same (tags d') = Some t" using get_or_create_Inr(1)[OF g s] d' by simp
  show "results d' = results d" "tagged_results d' = tagged_results d" using d' by simp_all
  show "tags d' = tags d \<or>
         (tags d' = tags d @ [t] \<and> t_id t = fresh_id (map t_id (tags d)) \<and>
          \<not> list_ex ?same (tags d))"
    using get_or_create_Inr(2)[OF g s] d' by auto
qed

lemma TaggedResult_get_or_create_Inr:
  assumes "TaggedResult_get_or_create up d t r = (Inr l, d')"
  shows "find (\<lambda>l. tr_tag l = t_id t \<and> tr_result l = r_id r) (tagged_results d') = Some l"
    and "results d' = results d" and "tags d' = tags d"
    and "tagged_results d' = tagged_results d \<or>
         (tagged_results d' = tagged_results d @ [l] \<and>
          \<not> list_ex (\<lambda>l. tr_tag l = t_id t \<and> tr_result l = r_id r) (tagged_results d))"
proof -
  let ?new = "\<lparr>tr_id = fresh_id (map tr_id (tagged_results d)), tr_tag = t_id t, tr_result = r_id r\<rparr>"
  let ?same = "\<lambda>l. tr_tag l = t_id t \<and> tr_result l = r_id r"
  obtain rows where g: "get_or_create up ?same ?same ?new (tagged_results d) = (Inr l, rows)"
    and d': "d' = d\<lparr>tagged_results := rows\<rparr>"
    using assms by (auto simp: TaggedResult_get_or_create_def split: prod.splits)
  have s: "?same ?new" by simp
  show "find ?same (tagged_results d') = Some l" using get_or_create_Inr(1)[OF g s] d' by simp
  show "results d' = results d" "tags d' = tags d" using d' by simp_all
  show "tagged_results d' = tagged_results d \<or>
         (tagged_results d' = tagged_results d @ [l] \<and> \<not> list_ex ?same (tagged_results d))"
    using get_or_create_Inr(2)[OF g s] d' by auto
qed

lemma Result_found:
  "find (\<lambda>r. r_client_id r = c \<and> r_object_id r = obj \<and> r_filename r = f) (results d) = Some r
   \<Longrightarrow> Result_get_or_create True d c obj f = (Inr r, d)"
  by (simp add: Result_get_or_create_def get_or_create_found)

lemma Tag_found:
  "find (\<lambda>t. t_tag_name t = n \<and> t_project_id t = p) (tags d) = Some t
   \<Longrightarrow> Tag_get_or_create True d n p = (Inr t, d)"
  by (simp add: Tag_get_or_create_def get_or_create_found)

lemma TaggedResult_found:
  "find (\<lambda>l. tr_tag l = t_id t \<and> tr_result l = r_id r) (tagged_results d) = Some l
   \<Longrightarrow> TaggedResult_get_or_create True d t r = (Inr l, d)"
  by (simp add: TaggedResult_get_or_create_def get_or_create_found)

lemma Tag_get_or_create_up:
  "\<exists>t d'. Tag_get_or_create True d n p = (Inr t, d')"
proof -
  obtain res rows where g: "get_or_create True (\<lambda>t. t_tag_name t = n \<and> t_project_id t = p)
      (\<lambda>t. t_tag_name t = n \<and> t_project_id t = p)
      \<lparr>t_id = fresh_id (map t_id (tags d)), t_tag_name = n, t_project_id = p\<rparr> (tags d) = (res, rows)"
    by (cases "get_or_create True (\<lambda>t. t_tag_name t = n \<and> t_project_id t = p)
      (\<lambda>t. t_tag_name t = n \<and> t_project_id t = p)
      \<lparr>t_id = fresh_id (map t_id (tags d)), t_tag_name = n, t_project_id = p\<rparr> (tags d)") auto
  from get_or_create_same_key[OF g] obtain row where "res = Inr row" by blast
  then show ?thesis using g by (simp add: Tag_get_or_create_def)
qed

lemma TaggedResult_get_or_create_up:
  "\<exists>l d'. TaggedResult_get_or_create True d t r = (Inr l, d')"
proof -
  let ?g = "get_or_create True (\<lambda>l. tr_tag l = t_id t \<and> tr_result l = r_id r)
      (\<lambda>l. tr_tag l = t_id t \<and> tr_result l = r_id r)
      \<lparr>tr_id = fresh_id (map tr_id (tagged_results d)), tr_tag = t_id t, tr_result = r_id r\<rparr>
      (tagged_results d)"
  obtain res rows where g: "?g = (res, rows)" by (cases ?g) auto
  from get_or_create_same_key[OF g] obtain row where "res = Inr row" by blast
  then show ?thesis using g by (simp add: TaggedResult_get_or_create_def)
qed

lemma tag_object_Inr:
  assumes "tag_object up tag d p c obj f = (Inr u, d')"
  shows "is_valid_tag tag \<and> (\<exists>r t l d1 d2.
     Result_get_or_create (up EnsureResult) d c obj (effective_filename f) = (Inr r, d1) \<and>
     Tag_get_or_create (up EnsureTag) d1 tag p = (Inr t, d2) \<and>
     TaggedResult_get_or_create (up EnsureLink) d2 t r = (Inr l, d'))"
  using assms unfolding tag_object_def bind_to_def tag_object_block_def
  by (auto split: if_splits prod.splits sum.splits exn.splits)

lemma tag_object_Inl:
  "tag_object up tag d p c obj f = (Inl e, d') \<Longrightarrow> d' = d"
  by (auto simp: tag_object_def bind_to_def split: if_splits prod.splits sum.splits)


section \<open>What a run of tag_object leaves in the ledger\<close>

lemma tag_object_again:
  assumes "tag_object up tag d p c obj f = (Inr u, d')"
  shows "tag_object reachable tag d' p c obj f = (Inr (), d')"
proof -
  from tag_object_Inr[OF assms] obtain r t l d1 d2 where
    v: "is_valid_tag tag" and
    s1: "Result_get_or_create (up EnsureResult) d c obj (effective_filename f) = (Inr r, d1)" and
    s2: "Tag_get_or_create (up EnsureTag) d1 tag p = (Inr t, d2)" and
    s3: "TaggedResult_get_or_create (up EnsureLink) d2 t r = (Inr l, d')"
    by blast
  have "results d' = results d1"
    using Tag_get_or_create_Inr(2)[OF s2] TaggedResult_get_or_create_Inr(2)[OF s3] by simp
  then have r1: "Result_get_or_create True d' c obj (effective_filename f) = (Inr r, d')"
    using Result_get_or_create_Inr(1)[OF s1] by (intro Result_found) simp
  have "tags d' = tags d2" using TaggedResult_get_or_create_Inr(3)[OF s3] by simp
  then have r2: "Tag_get_or_create True d' tag p = (Inr t, d')"
    using Tag_get_or_create_Inr(1)[OF s2] by (intro Tag_found) simp
  have r3: "TaggedResult_get_or_create True d' t r = (Inr l, d')"
    using TaggedResult_get_or_create_Inr(1)[OF s3] by (intro TaggedResult_found)
  show ?thesis
    using v r1 r2 r3 by (simp add: tag_object_def bind_to_def tag_object_block_def reachable_def)
qed

lemma Result_get_or_create_no_conflict:
  assumes "\<forall>r \<in> set (results d). r_object_id r = obj \<and> r_client_id r = c \<longrightarrow> r_filename r = f"
  shows "\<exists>r d'. Result_get_or_create True d c obj f = (Inr r, d')"
proof -
  let ?same = "\<lambda>r. r_client_id r = c \<and> r_object_id r = obj \<and> r_filename r = f"
  let ?clash = "\<lambda>r. r_object_id r = obj \<and> r_client_id r = c"
  have "list_ex ?clash (results d) \<Longrightarrow> list_ex ?same (results d)"
    using assms by (auto simp: list_ex_iff)
  then have "find ?same (results d) = None \<Longrightarrow> \<not> list_ex ?clash (results d)"
    by (auto simp: find_None_iff_list_ex)
  then show ?thesis
    by (auto simp: Result_get_or_create_def get_or_create_def split: option.splits)
qed

lemma tag_object_succeeds:
  assumes "is_valid_tag tag"
    and "\<forall>r \<in> set (results d). r_object_id r = obj \<and> r_client_id r = c \<longrightarrow> r_filename r = effective_filename f"
  shows "\<exists>d'. tag_object reachable tag d p c obj f = (Inr (), d')"
proof -
  obtain r d1 where s1: "Result_get_or_create True d c obj (effective_filename f) = (Inr r, d1)"
    using Result_get_or_create_no_conflict[OF assms(2)] by blast
  obtain t d2 where s2: "Tag_get_or_create True d1 tag p = (Inr t, d2)"
    using Tag_get_or_create_up by blast
  obtain l d3 where s3: "TaggedResult_get_or_create True d2 t r = (Inr l, d3)"
    using TaggedResult_get_or_create_up by blast
  show ?thesis using assms(1) s1 s2 s3
    by (simp add: tag_object_def bind_to_def tag_object_block_def reachable_def)
qed

lemma find_SomeD: "find P xs = Some x \<Longrightarrow> x \<in> set xs \<and> P x"
  by (induction xs) (auto split: if_splits)

lemma ledger_ok_Result:
  assumes "ledger_ok d" "Result_get_or_create up d c obj f = (Inr r, d')"
  shows "ledger_ok d'"
proof -
  note R = Result_get_or_create_Inr[OF assms(2)]
  have rc: "r_object_id r = obj \<and> r_client_id r = c" using find_SomeD[OF R(1)] by simp
  from R(4) show ?thesis
  proof
    assume "results d' = results d"
    then show ?thesis using assms(1) R(2,3) by (simp add: ledger_ok_def)
  next
    assume a: "results d' = results d @ [r] \<and> r_id r = fresh_id (map r_id (results d)) \<and>
          \<not> list_ex (\<lambda>r. r_object_id r = obj \<and> r_client_id r = c) (results d)"
    then have "(obj, c) \<notin> set (map (\<lambda>r. (r_object_id r, r_client_id r)) (results d))"
      by (auto simp: list_ex_iff)
    moreover have "r_id r \<notin> set (map r_id (results d))" using a fresh_id_notin by metis
    ultimately show ?thesis using assms(1) R(2,3) a rc by (simp add: ledger_ok_def)
  qed
qed

lemma ledger_ok_Tag:
  assumes "ledger_ok d" "Tag_get_or_create up d n p = (Inr t, d')"
  shows "ledger_ok d'"
proof -
  note R = Tag_get_or_create_Inr[OF assms(2)]
  have rc: "t_tag_name t = n \<and> t_project_id t = p" using find_SomeD[OF R(1)] by simp
  from R(4) show ?thesis
  proof
    assume "tags d' = tags d"
    then show ?thesis using assms(1) R(2,3) by (simp add: ledger_ok_def)
  next
    assume a: "tags d' = tags d @ [t] \<and> t_id t = fresh_id (map t_id (tags d)) \<and>
          \<not> list_ex (\<lambda>t. t_tag_name t = n \<and> t_project_id t = p) (tags d)"
    then have "(n, p) \<notin> set (map (\<lambda>t. (t_tag_name t, t_project_id t)) (tags d))"
      by (auto simp: list_ex_iff)
    moreover have "t_id t \<notin> set (map t_id (tags d))" using a fresh_id_notin by metis
    ultimately show ?thesis using assms(1) R(2,3) a rc by (simp add: ledger_ok_def)
  qed
qed

lemma ledger_ok_TaggedResult:
  assumes "ledger_ok d" "TaggedResult_get_or_create up d t r = (Inr l, d')"
  shows "ledger_ok d'"
proof -
  note R = TaggedResult_get_or_create_Inr[OF assms(2)]
  have rc: "tr_tag l = t_id t \<and> tr_result l = r_id r" using find_SomeD[OF R(1)] by simp
  from R(4) show ?thesis
  proof
    assume "tagged_results d' = tagged_results d"
    then show ?thesis using assms(1) R(2,3) by (simp add: ledger_ok_def)
  next
    assume a: "tagged_results d' = tagged_results d @ [l] \<and>
          \<not> list_ex (\<lambda>l. tr_tag l = t_id t \<and> tr_result l = r_id r) (tagged_results d)"
    then have "(t_id t, r_id r) \<notin> set (map (\<lambda>l. (tr_tag l, tr_result l)) (tagged_results d))"
      by (auto simp: list_ex_iff)
    then show ?thesis using assms(1) R(2,3) a rc by (simp add: ledger_ok_def)
  qed
qed

lemma tag_object_rows:
  assumes ok: "ledger_ok d" and run: "tag_object up tag d p c obj f = (Inr u, d')"
  shows "ledger_ok d'"
    and "length (results_for d' obj c) = 1"
    and "length (tags_for d' tag p) = 1"
    and "length (links_for d' tag p obj c) = 1"
proof -
  from tag_object_Inr[OF run] obtain r t l d1 d2 where
    s1: "Result_get_or_create (up EnsureResult) d c obj (effective_filename f) = (Inr r, d1)" and
    s2: "Tag_get_or_create (up EnsureTag) d1 tag p = (Inr t, d2)" and
    s3: "TaggedResult_get_or_create (up EnsureLink) d2 t r = (Inr l, d')"
    by blast
  have ok1: "ledger_ok d1" by (rule ledger_ok_Result[OF ok s1])
  have ok2: "ledger_ok d2" by (rule ledger_ok_Tag[OF ok1 s2])
  show ok3: "ledger_ok d'" by (rule ledger_ok_TaggedResult[OF ok2 s3])
  have res': "results d' = results d1"
    using Tag_get_or_create_Inr(2)[OF s2] TaggedResult_get_or_create_Inr(2)[OF s3] by simp
  have tags': "tags d' = tags d2" using TaggedResult_get_or_create_Inr(3)[OF s3] by simp
  have r: "r \<in> set (results d')" "r_object_id r = obj" "r_client_id r = c"
    using find_SomeD[OF Result_get_or_create_Inr(1)[OF s1]] res' by simp_all
  have t: "t \<in> set (tags d')" "t_tag_name t = tag" "t_project_id t = p"
    using find_SomeD[OF Tag_get_or_create_Inr(1)[OF s2]] tags' by simp_all
  have l: "l \<in> set (tagged_results d')" "tr_tag l = t_id t" "tr_result l = r_id r"
    using find_SomeD[OF TaggedResult_get_or_create_Inr(1)[OF s3]] by simp_all
  have "filter (\<lambda>y. (r_object_id y, r_client_id y) = (r_object_id r, r_client_id r)) (results d') = [r]"
    using ok3 r(1) by (intro filter_key_single) (simp_all add: ledger_ok_def)
  then have rf: "results_for d' obj c = [r]" using r by (simp add: results_for_def)
  then show "length (results_for d' obj c) = 1" by simp
  have "filter (\<lambda>y. (t_tag_name y, t_project_id y) = (t_tag_name t, t_project_id t)) (tags d') = [t]"
    using ok3 t(1) by (intro filter_key_single) (simp_all add: ledger_ok_def)
  then have tf: "tags_for d' tag p = [t]" using t by (simp add: tags_for_def)
  then show "length (tags_for d' tag p) = 1" by simp
  have "filter (\<lambda>y. (tr_tag y, tr_result y) = (tr_tag l, tr_result l)) (tagged_results d') = [l]"
    using ok3 l(1) by (intro filter_key_single) (simp_all add: ledger_ok_def)
  then have "links_for d' tag p obj c = [l]" using l rf tf by (simp add: links_for_def)
  then show "length (links_for d' tag p obj c) = 1" by simp
qed

text \<open>
  The constraints of the tables hold of the empty ledger and are kept by every run of
  \<open>tag_object\<close>, failed or not, and by the purge of a project.
\<close>

lemma ledger_ok_empty: "ledger_ok empty_ledger"
  by (simp add: ledger_ok_def empty_ledger_def)

lemma ledger_ok_purge_ledger: "ledger_ok d \<Longrightarrow> ledger_ok (purge_ledger d pid ids)"
  by (simp add: ledger_ok_def purge_ledger_def Tag_delete_where_def Result_delete_where_def
      Let_def distinct_map_filter)

lemma tag_object_ledger_ok:
  assumes "ledger_ok d" "tag_object up tag d p c obj f = (res, d')"
  shows "ledger_ok d'"
proof (cases res)
  case (Inl e)
  then have "d' = d" using assms(2) tag_object_Inl by blast
  then show ?thesis using assms(1) by simp
next
  case (Inr u)
  then show ?thesis using tag_object_rows(1)[OF assms(1)] assms(2) by blast
qed

section \<open>Claims about tag_object\<close>

lemma valid_t1: "is_valid_tag ''t1''"
  by (simp add: is_valid_tag_iff tag_grammar_def is_lower_alnum_def)

text \<open>
  The block of \<open>tag_object\<close> undoes nothing by itself: when it raises, the ledger it
  leaves is exactly the ledger after the last step that was done. Whatever is undone,
  is undone by the scope the block runs in.
\<close>

lemma tag_object_block_Inl:
  assumes "tag_object_block up tag d p c obj f = (Inl e, d1)"
  shows "(d1 = d \<and>
          (\<exists>x. Result_get_or_create (up EnsureResult) d c obj (effective_filename f) = (Inl x, d))) \<or>
         (\<exists>r da. Result_get_or_create (up EnsureResult) d c obj (effective_filename f) = (Inr r, da) \<and>
            ((d1 = da \<and> (\<exists>x. Tag_get_or_create (up EnsureTag) da tag p = (Inl x, da))) \<or>
             (\<exists>t db x. Tag_get_or_create (up EnsureTag) da tag p = (Inr t, db) \<and>
                 TaggedResult_get_or_create (up EnsureLink) db t r = (Inl x, db) \<and> d1 = db)))"
proof -
  obtain res1 da where s1:
    "Result_get_or_create (up EnsureResult) d c obj (effective_filename f) = (res1, da)"
    by (cases "Result_get_or_create (up EnsureResult) d c obj (effective_filename f)") auto
  show ?thesis
  proof (cases res1)
    case (Inl x)
    then have "da = d" using s1 Result_get_or_create_Inl by blast
    moreover have "d1 = da" using assms s1 Inl
      by (auto simp: tag_object_block_def split: exn.splits)
    ultimately show ?thesis using s1 Inl by auto
  next
    case (Inr r)
    obtain res2 db where s2: "Tag_get_or_create (up EnsureTag) da tag p = (res2, db)"
      by (cases "Tag_get_or_create (up EnsureTag) da tag p") auto
    show ?thesis
    proof (cases res2)
      case (Inl x)
      then have "db = da" using s2 Tag_get_or_create_Inl by blast
      moreover have "d1 = db" using assms s1 \<open>res1 = Inr r\<close> s2 Inl
        by (auto simp: tag_object_block_def)
      ultimately show ?thesis using s1 \<open>res1 = Inr r\<close> s2 Inl by auto
    next
      case tagok: (Inr t)
      obtain res3 dc where s3: "TaggedResult_get_or_create (up EnsureLink) db t r = (res3, dc)"
        by (cases "TaggedResult_get_or_create (up EnsureLink) db t r") auto
      show ?thesis
      proof (cases res3)
        case (Inl x)
        then have "dc = db" using s3 TaggedResult_get_or_create_Inl by blast
        moreover have "d1 = dc" using assms s1 \<open>res1 = Inr r\<close> s2 tagok s3 Inl
          by (auto simp: tag_object_block_def)
        ultimately show ?thesis using s1 \<open>res1 = Inr r\<close> s2 tagok s3 Inl by auto
      next
        case (Inr l)
        then have False using assms s1 \<open>res1 = Inr r\<close> s2 tagok s3
          by (auto simp: tag_object_block_def)
        then show ?thesis ..
      qed
    qed
  qed
qed




text \<open>
  C4. In a ledger that satisfies the constraints of its tables and holds a Result row
  for the pair (object_id, client_id), a call of \<open>tag_object\<close> with a valid tag for
  that pair and an effective filename other than the row's fails with
  FilenameConflict, and the ledger after the call is the ledger before it: the row
  keeps its filename and no Result, Tag or TaggedResult row is added.
\<close>

theorem tag_object_filename_conflict:
  assumes "ledger_ok d" and "is_valid_tag tag"
    and "r \<in> set (results d)" and "r_object_id r = obj" and "r_client_id r = c"
    and "r_filename r \<noteq> effective_filename f"
  shows "tag_object reachable tag d p c obj f = (Inl FilenameConflict, d)"
proof -
  let ?same = "\<lambda>r. r_client_id r = c \<and> r_object_id r = obj \<and> r_filename r = effective_filename f"
  let ?clash = "\<lambda>r. r_object_id r = obj \<and> r_client_id r = c"
  have dist: "distinct (map (\<lambda>r. (r_object_id r, r_client_id r)) (results d))"
    using assms(1) by (simp add: ledger_ok_def)
  have "\<not> list_ex ?same (results d)"
  proof
    assume "list_ex ?same (results d)"
    then obtain r' where r': "r' \<in> set (results d)" "?same r'" by (auto simp: list_ex_iff)
    have "r' = r"
      using distinct_key_unique[OF dist r'(1) assms(3)] r'(2) assms(4,5) by simp
    then show False using r'(2) assms(6) by simp
  qed
  then have none: "find ?same (results d) = None" by (simp add: find_None_iff_list_ex)
  have clash: "list_ex ?clash (results d)" using assms(3,4,5) by (auto simp: list_ex_iff)
  have "Result_get_or_create True d c obj (effective_filename f) = (Inl IntegrityError, d)"
    using none clash by (simp add: Result_get_or_create_def get_or_create_def)
  then show ?thesis using assms(2)
    by (simp add: tag_object_def bind_to_def tag_object_block_def reachable_def)
qed

theorem tag_object_filename_conflict_witness:
  "tag_object reachable ''t1''
     \<lparr>results = [\<lparr>r_id = 1, r_client_id = ''c'', r_object_id = ''o'', r_filename = ''data.bin''\<rparr>],
      tags = [\<lparr>t_id = 1, t_tag_name = ''t1'', t_project_id = ''p''\<rparr>],
      tagged_results = [\<lparr>tr_id = 1, tr_tag = 1, tr_result = 1\<rparr>]\<rparr>
     ''p'' ''c'' ''o'' (Some ''other.bin'') =
   (Inl FilenameConflict,
     \<lparr>results = [\<lparr>r_id = 1, r_client_id = ''c'', r_object_id = ''o'', r_filename = ''data.bin''\<rparr>],
      tags = [\<lparr>t_id = 1, t_tag_name = ''t1'', t_project_id = ''p''\<rparr>],
      tagged_results = [\<lparr>tr_id = 1, tr_tag = 1, tr_result = 1\<rparr>]\<rparr>)"
  by (rule tag_object_filename_conflict
        [where r = "\<lparr>r_id = 1, r_client_id = ''c'', r_object_id = ''o'', r_filename = ''data.bin''\<rparr>"])
     (simp_all add: ledger_ok_def valid_t1 effective_filename_def)

text \<open>
  C5. From a ledger that satisfies the constraints of its tables, with a valid tag and
  no Result row for the pair (object_id, client_id) under another filename, two calls
  of \<open>tag_object\<close> with the same arguments both succeed, the second leaves the ledger
  exactly as the first left it, and the ledger then holds one Result row for the pair,
  one Tag row for (tag_name, project_id) and one TaggedResult row linking the two.
\<close>

theorem tag_object_idempotent:
  assumes "ledger_ok d" and "is_valid_tag tag"
    and "\<forall>r \<in> set (results d). r_object_id r = obj \<and> r_client_id r = c
            \<longrightarrow> r_filename r = effective_filename f"
  shows "\<exists>d'. tag_object reachable tag d p c obj f = (Inr (), d') \<and>
              tag_object reachable tag d' p c obj f = (Inr (), d') \<and>
              length (results_for d' obj c) = 1 \<and>
              length (tags_for d' tag p) = 1 \<and>
              length (links_for d' tag p obj c) = 1"
proof -
  obtain d' where run: "tag_object reachable tag d p c obj f = (Inr (), d')"
    using tag_object_succeeds[OF assms(2,3)] by blast
  have "tag_object reachable tag d' p c obj f = (Inr (), d')"
    by (rule tag_object_again[OF run])
  then show ?thesis
    using run tag_object_rows(2,3,4)[OF assms(1) run] by blast
qed

theorem tag_object_idempotent_witness:
  "ledger_ok empty_ledger \<and> is_valid_tag ''t1'' \<and> results empty_ledger = [] \<and>
   (\<exists>d'. tag_object reachable ''t1'' empty_ledger ''p'' ''c'' ''o'' (Some ''f.csv'') = (Inr (), d') \<and>
         tag_object reachable ''t1'' d' ''p'' ''c'' ''o'' (Some ''f.csv'') = (Inr (), d') \<and>
         length (results_for d' ''o'' ''c'') = 1 \<and>
         length (tags_for d' ''t1'' ''p'') = 1 \<and>
         length (links_for d' ''t1'' ''p'' ''o'' ''c'') = 1)"
  using tag_object_idempotent[of empty_ledger "''t1''" "''o''" "''c''" "Some ''f.csv''" "''p''"]
  by (simp add: ledger_ok_def empty_ledger_def valid_t1)

section \<open>Claims about the local store and the ledger together\<close>

lemma remove_listed_ok:
  assumes "fault st = None"
  shows "remove_listed st names ids =
     (Inr (ids @ map last_segment names),
      st\<lparr>objects := filter (\<lambda>(n, _). n \<notin> set names) (objects st)\<rparr>)"
  using assms
proof (induction names arbitrary: st ids)
  case Nil
  then show ?case by simp
next
  case (Cons name names)
  let ?st' = "st\<lparr>objects := filter (\<lambda>(n, _). n \<noteq> name) (objects st)\<rparr>"
  have r: "remove_object st name = Inr ?st'" using Cons.prems by (simp add: remove_object_def)
  have f: "fault ?st' = None" using Cons.prems by simp
  have "filter (\<lambda>(n, _). n \<notin> set names) (filter (\<lambda>(n, _). n \<noteq> name) (objects st))
      = filter (\<lambda>(n, _). n \<notin> set (name # names)) (objects st)"
    by (induction "objects st") (auto simp: case_prod_beta intro: filter_cong)
  then show ?case using r Cons.IH[OF f, of "ids @ [last_segment name]"] by simp
qed

lemma listed_name_flat:
  "CHR ''/'' \<notin> set (drop (length p) n) \<Longrightarrow> listed_name p n = n"
  by (simp add: listed_name_def)

lemma list_objects_flat:
  assumes "fault st = None" "flat_under st p"
  shows "list_objects st p = Inr (remdups (filter (\<lambda>n. startswith n p) (map fst (objects st))))"
proof -
  have "map (listed_name p) (filter (\<lambda>n. startswith n p) (map fst (objects st)))
      = filter (\<lambda>n. startswith n p) (map fst (objects st))"
    using assms(2)
    by (intro map_idI) (auto simp: flat_under_def list_all_iff listed_name_flat)
  then show ?thesis using assms(1) by (simp add: list_objects_def)
qed

lemma takeWhile_until:
  "c \<notin> set xs \<Longrightarrow> takeWhile (\<lambda>x. x \<noteq> c) (xs @ c # ys) = xs"
  by (induction xs) auto

lemma last_segment_flat:
  assumes "startswith n (project_prefix pid)" "CHR ''/'' \<notin> set (drop (length (project_prefix pid)) n)"
  shows "last_segment n = drop (length (project_prefix pid)) n"
proof -
  let ?p = "project_prefix pid"
  let ?rest = "drop (length ?p) n"
  have n: "n = ?p @ ?rest" using assms(1) by (metis append_take_drop_id startswith_def)
  have "?p = (''local/'' @ pid) @ ''/''" by (simp add: project_prefix_def)
  then have "n = (''local/'' @ pid) @ ''/'' @ ?rest" using n by simp
  then have "rev n = rev ?rest @ CHR ''/'' # rev (''local/'' @ pid)"
    by (metis append_Cons append_Nil rev.simps(2) rev_append rev_rev_ident rev_singleton_conv append_assoc)
  moreover have "CHR ''/'' \<notin> set (rev ?rest)" using assms(2) by simp
  ultimately have "takeWhile (\<lambda>c. c \<noteq> CHR ''/'') (rev n) = rev ?rest"
    using takeWhile_until by metis
  then show ?thesis by (simp add: last_segment_def)
qed


text \<open>
  A bucket in which every name was written as \<^verbatim>\<open>local/{project_id}/{object_id}\<close>, with
  no \<open>/\<close> in the two identifiers, is flat under the prefix of every project.
\<close>

lemma rest_of_path:
  assumes "CHR ''/'' \<notin> set p" "CHR ''/'' \<notin> set obj"
    and "startswith (object_path p obj) (project_prefix q)"
  shows "CHR ''/'' \<notin> set (drop (length (project_prefix q)) (object_path p obj))"
proof -
  have eq: "take (Suc (length q)) (p @ ''/'' @ obj) = q @ ''/''"
    using assms(3) by (simp add: startswith_def object_path_def project_prefix_def)
  have d: "drop (length (project_prefix q)) (object_path p obj) = drop (Suc (length q)) (p @ ''/'' @ obj)"
    by (simp add: object_path_def project_prefix_def)
  show ?thesis
  proof (cases "length q < length p")
    case True
    then have "(p @ ''/'' @ obj) ! length q = p ! length q" by (simp add: nth_append)
    moreover have "(take (Suc (length q)) (p @ ''/'' @ obj)) ! length q = (p @ ''/'' @ obj) ! length q"
      by (rule nth_take) simp
    moreover have "(q @ ''/'') ! length q = CHR ''/''" by simp
    ultimately have "p ! length q = CHR ''/''" using eq by metis
    then have "CHR ''/'' \<in> set p" using True by (metis nth_mem)
    then show ?thesis using assms(1) by simp
  next
    case False
    then have "drop (Suc (length q)) (p @ ''/'' @ obj) = drop (length q - length p) obj"
      by (simp add: Suc_diff_le)
    then show ?thesis using assms(2) d by (metis in_set_dropD)
  qed
qed

lemma flat_under_paths:
  assumes "\<forall>n \<in> set (map fst (objects st)).
             \<exists>p obj. n = object_path p obj \<and> CHR ''/'' \<notin> set p \<and> CHR ''/'' \<notin> set obj"
  shows "flat_under st (project_prefix q)"
proof -
  have "CHR ''/'' \<notin> set (drop (length (project_prefix q)) n)"
    if mem: "n \<in> set (map fst (objects st))" and sw: "startswith n (project_prefix q)" for n
  proof -
    obtain p obj where "n = object_path p obj" "CHR ''/'' \<notin> set p" "CHR ''/'' \<notin> set obj"
      using assms mem by blast
    then show ?thesis using rest_of_path sw by blast
  qed
  then show ?thesis unfolding flat_under_def list_all_iff by blast
qed

lemma purge_ledger_tags:
  "\<not> list_ex (\<lambda>t. t_project_id t = pid) (tags (purge_ledger d pid ids))"
  by (simp add: purge_ledger_def Tag_delete_where_def Result_delete_where_def Let_def list_ex_iff)

lemma purge_ledger_results:
  "\<not> list_ex (\<lambda>r. r_object_id r \<in> set ids) (results (purge_ledger d pid ids))"
  by (simp add: purge_ledger_def Tag_delete_where_def Result_delete_where_def Let_def list_ex_iff)

lemma purge_ledger_links:
  "\<not> list_ex (\<lambda>l. tr_tag l \<in> t_id ` {t \<in> set (tags d). t_project_id t = pid} \<or>
                    tr_result l \<in> r_id ` {r \<in> set (results d). r_object_id r \<in> set ids})
        (tagged_results (purge_ledger d pid ids))"
  by (auto simp add: purge_ledger_def Tag_delete_where_def Result_delete_where_def Let_def list_ex_iff)

lemma remove_project_objects_flat:
  assumes "fault st = None" "flat_under st (project_prefix pid)"
  shows "remove_project_objects st pid =
     (Inr (map (drop (length (project_prefix pid)))
             (remdups (filter (\<lambda>n. startswith n (project_prefix pid)) (map fst (objects st))))),
      st\<lparr>objects := filter (\<lambda>(n, _). \<not> startswith n (project_prefix pid)) (objects st)\<rparr>)"
proof -
  let ?p = "project_prefix pid"
  let ?names = "remdups (filter (\<lambda>n. startswith n ?p) (map fst (objects st)))"
  have l: "list_objects st ?p = Inr ?names" by (rule list_objects_flat[OF assms])
  have seg: "map last_segment ?names = map (drop (length ?p)) ?names"
    using assms(2)
    by (intro map_cong refl last_segment_flat) (auto simp: flat_under_def list_all_iff)
  have "filter (\<lambda>(n, _). n \<notin> set ?names) (objects st)
      = filter (\<lambda>(n, _). \<not> startswith n ?p) (objects st)"
    by (intro filter_cong refl) (auto simp: case_prod_beta)
  then show ?thesis
    using l seg remove_listed_ok[OF assms(1), of ?names "[]"]
    by (simp add: remove_project_objects_def)
qed

lemma list_objects_after_removal:
  assumes "fault st = None"
  shows "list_objects (st\<lparr>objects := filter (\<lambda>(n, _). \<not> startswith n p) (objects st)\<rparr>) p = Inr []"
proof -
  have "filter (\<lambda>n. startswith n p) (map fst (filter (\<lambda>(n, _). \<not> startswith n p) (objects st))) = []"
    by (auto simp: filter_empty_conv)
  then show ?thesis using assms by (simp add: list_objects_def)
qed

text \<open>
  C6, on the source: for a tagged upload, \<open>submit_intermediate_result_to_local\<close> calls
  \<open>tag_object\<close> before it calls \<open>put_object\<close>. When the object store refuses the write,
  the request fails and the ledger holds a Result, a Tag and a TaggedResult row for an
  object that was never stored: the claimed order (object store first, ledger after) is
  the reverse of the order of the source.
\<close>

theorem tagged_upload_ledger_before_store:
  "submit_intermediate_result_to_local reachable demo_hub ''analysis-1''
      \<lparr>file_filename = Some ''f.csv'', file_content = [1, 2, 3]\<rparr> (Some ''t1'') ''object-1''
      \<lparr>minio = \<lparr>objects = [], fault = Some ''AccessDenied''\<rparr>, db = empty_ledger\<rparr> =
   (Inl (Uncaught (S3Error ''AccessDenied'')),
    \<lparr>minio = \<lparr>objects = [], fault = Some ''AccessDenied''\<rparr>,
     db = \<lparr>results = [\<lparr>r_id = 1, r_client_id = ''analysis-1'', r_object_id = ''object-1'',
                        r_filename = ''f.csv''\<rparr>],
           tags = [\<lparr>t_id = 1, t_tag_name = ''t1'', t_project_id = ''project-1''\<rparr>],
           tagged_results = [\<lparr>tr_id = 1, tr_tag = 1, tr_result = 1\<rparr>]\<rparr>\<rparr>)"
  by (simp add: submit_intermediate_result_to_local_def get_project_id_for_analysis_or_raise_def
      demo_hub_def valid_t1 tag_object_def bind_to_def tag_object_block_def
      Result_get_or_create_def Tag_get_or_create_def
      TaggedResult_get_or_create_def reachable_def get_or_create_def empty_ledger_def
      effective_filename_def fresh_id_def put_object_def)

text \<open>
  What a purge does when everything is in order: for the administrative identity, a
  project absent from the hub, and a store in order that holds the objects of the
  project directly under its prefix, \<open>delete_local_results\<close> succeeds; afterwards
  listing the store under the prefix returns nothing, the ledger has no Tag row of the
  project, no Result row of an object that was listed under the prefix, and no
  TaggedResult row that pointed to a removed Tag or Result row.
\<close>

lemma delete_local_results_listed:
  assumes "client_id = hub_adapter_client_id cfg"
    and "\<not> get_project core_client project_id"
    and "fault (minio w) = None"
    and "flat_under (minio w) (project_prefix project_id)"
  shows "\<exists>object_ids st.
      remove_project_objects (minio w) project_id = (Inr object_ids, st) \<and>
      delete_local_results cfg core_client project_id client_id w =
        (Inr (), \<lparr>minio = st, db = purge_ledger (db w) project_id object_ids\<rparr>) \<and>
      list_objects st (project_prefix project_id) = Inr [] \<and>
      object_ids = map (drop (length (project_prefix project_id)))
         (remdups (filter (\<lambda>n. startswith n (project_prefix project_id)) (map fst (objects (minio w))))) \<and>
      \<not> list_ex (\<lambda>t. t_project_id t = project_id)
           (tags (purge_ledger (db w) project_id object_ids)) \<and>
      \<not> list_ex (\<lambda>r. r_object_id r \<in> set object_ids)
           (results (purge_ledger (db w) project_id object_ids)) \<and>
      \<not> list_ex (\<lambda>l. tr_tag l \<in> t_id ` {t \<in> set (tags (db w)). t_project_id t = project_id} \<or>
                      tr_result l \<in> r_id ` {r \<in> set (results (db w)). r_object_id r \<in> set object_ids})
           (tagged_results (purge_ledger (db w) project_id object_ids))"
proof -
  let ?p = "project_prefix project_id"
  let ?ids = "map (drop (length ?p)) (remdups (filter (\<lambda>n. startswith n ?p) (map fst (objects (minio w)))))"
  let ?st = "(minio w)\<lparr>objects := filter (\<lambda>(n, _). \<not> startswith n ?p) (objects (minio w))\<rparr>"
  have rm: "remove_project_objects (minio w) project_id = (Inr ?ids, ?st)"
    by (rule remove_project_objects_flat[OF assms(3,4)])
  have run: "delete_local_results cfg core_client project_id client_id w =
        (Inr (), \<lparr>minio = ?st, db = purge_ledger (db w) project_id ?ids\<rparr>)"
    using assms(1,2) rm by (simp add: delete_local_results_def)
  have empty: "list_objects ?st ?p = Inr []"
    by (rule list_objects_after_removal[OF assms(3)])
  show ?thesis
    using rm run empty purge_ledger_tags purge_ledger_results purge_ledger_links
    by blast
qed

lemma delete_local_results_listed_example:
  "''hub-adapter'' = hub_adapter_client_id demo_cfg \<and>
   \<not> get_project demo_hub ''project-0'' \<and>
   fault (minio leftover_world) = None \<and>
   flat_under (minio leftover_world) (project_prefix ''project-0'') \<and>
   delete_local_results demo_cfg demo_hub ''project-0'' ''hub-adapter'' leftover_world =
     (Inr (),
      \<lparr>minio = \<lparr>objects = [(''local/project-1/o3'', [5])], fault = None\<rparr>,
       db = \<lparr>results = [\<lparr>r_id = 2, r_client_id = ''analysis-1'', r_object_id = ''o3'',
                          r_filename = ''data.bin''\<rparr>],
             tags = [\<lparr>t_id = 2, t_tag_name = ''t1'', t_project_id = ''project-1''\<rparr>],
             tagged_results = [\<lparr>tr_id = 2, tr_tag = 2, tr_result = 2\<rparr>]\<rparr>\<rparr>)"
proof -
  have h: "''hub-adapter'' = hub_adapter_client_id demo_cfg"
    "\<not> get_project demo_hub ''project-0''"
    "fault (minio leftover_world) = None"
    "flat_under (minio leftover_world) (project_prefix ''project-0'')"
    by (simp_all add: demo_cfg_def demo_hub_def leftover_world_def flat_under_def
        project_prefix_def startswith_def)
  from delete_local_results_listed[OF h]
  obtain object_ids st where
    rm: "remove_project_objects (minio leftover_world) ''project-0'' = (Inr object_ids, st)" and
    run: "delete_local_results demo_cfg demo_hub ''project-0'' ''hub-adapter'' leftover_world =
        (Inr (), \<lparr>minio = st, db = purge_ledger (db leftover_world) ''project-0'' object_ids\<rparr>)" and
    ids: "object_ids = map (drop (length (project_prefix ''project-0'')))
         (remdups (filter (\<lambda>n. startswith n (project_prefix ''project-0''))
            (map fst (objects (minio leftover_world)))))"
    by blast
  have ids': "object_ids = [''o1'', ''o2'']"
    unfolding ids by (simp add: leftover_world_def project_prefix_def startswith_def)
  have "remove_project_objects (minio leftover_world) ''project-0'' =
     (Inr [''o1'', ''o2''], \<lparr>objects = [(''local/project-1/o3'', [5])], fault = None\<rparr>)"
    by (simp add: remove_project_objects_def list_objects_def leftover_world_def project_prefix_def
        startswith_def listed_name_def remove_object_def last_segment_def)
  then have st: "st = \<lparr>objects = [(''local/project-1/o3'', [5])], fault = None\<rparr>"
    using rm by simp
  have "purge_ledger (db leftover_world) ''project-0'' [''o1'', ''o2''] =
      \<lparr>results = [\<lparr>r_id = 2, r_client_id = ''analysis-1'', r_object_id = ''o3'',
                          r_filename = ''data.bin''\<rparr>],
             tags = [\<lparr>t_id = 2, t_tag_name = ''t1'', t_project_id = ''project-1''\<rparr>],
             tagged_results = [\<lparr>tr_id = 2, tr_tag = 2, tr_result = 2\<rparr>]\<rparr>"
    by (simp add: purge_ledger_def Tag_delete_where_def Result_delete_where_def leftover_world_def)
  then show ?thesis using h run ids' st by simp
qed

text \<open>
  The objects go first: the ledger is purged only after the removal of the objects has
  come to its end, and a removal that the store breaks off leaves the ledger as it was.
\<close>

lemma delete_local_results_store_failure:
  assumes "client_id = hub_adapter_client_id cfg"
    and "\<not> get_project core_client project_id"
    and "remove_project_objects (minio w) project_id = (Inl e, st)"
  shows "delete_local_results cfg core_client project_id client_id w = (Inl e, w\<lparr>minio := st\<rparr>)"
  using assms by (simp add: delete_local_results_def)

text \<open>
  C7, on the source: \<open>delete_local_results\<close> finds the Result rows to delete through the
  objects it lists in the bucket, so a Result row whose object is not in the bucket is
  never deleted. Such a row is there after a tagged upload whose write to the store
  failed: the upload of analysis-1 (project-1) leaves a Result, a Tag and a
  TaggedResult row for object-1 and no object. After project-1 is gone from the hub and
  the store is in order again, the purge of project-1 by the administrative identity
  succeeds and removes the Tag row and the TaggedResult row, and the Result row of
  object-1 is still in the ledger: the ledger does hold a row of that project.
\<close>

theorem delete_local_results_leaves_result_row:
  "submit_intermediate_result_to_local reachable demo_hub ''analysis-1''
      \<lparr>file_filename = Some ''f.csv'', file_content = [1, 2, 3]\<rparr> (Some ''t1'') ''object-1''
      \<lparr>minio = \<lparr>objects = [], fault = Some ''AccessDenied''\<rparr>, db = empty_ledger\<rparr> =
   (Inl (Uncaught (S3Error ''AccessDenied'')),
    \<lparr>minio = \<lparr>objects = [], fault = Some ''AccessDenied''\<rparr>,
     db = \<lparr>results = [\<lparr>r_id = 1, r_client_id = ''analysis-1'', r_object_id = ''object-1'',
                        r_filename = ''f.csv''\<rparr>],
           tags = [\<lparr>t_id = 1, t_tag_name = ''t1'', t_project_id = ''project-1''\<rparr>],
           tagged_results = [\<lparr>tr_id = 1, tr_tag = 1, tr_result = 1\<rparr>]\<rparr>\<rparr>) \<and>
   delete_local_results demo_cfg hub_project_gone ''project-1'' ''hub-adapter''
      \<lparr>minio = \<lparr>objects = [], fault = None\<rparr>,
       db = \<lparr>results = [\<lparr>r_id = 1, r_client_id = ''analysis-1'', r_object_id = ''object-1'',
                          r_filename = ''f.csv''\<rparr>],
             tags = [\<lparr>t_id = 1, t_tag_name = ''t1'', t_project_id = ''project-1''\<rparr>],
             tagged_results = [\<lparr>tr_id = 1, tr_tag = 1, tr_result = 1\<rparr>]\<rparr>\<rparr> =
   (Inr (),
    \<lparr>minio = \<lparr>objects = [], fault = None\<rparr>,
     db = \<lparr>results = [\<lparr>r_id = 1, r_client_id = ''analysis-1'', r_object_id = ''object-1'',
                        r_filename = ''f.csv''\<rparr>],
           tags = [], tagged_results = []\<rparr>\<rparr>)"
proof -
  have upload: "submit_intermediate_result_to_local reachable demo_hub ''analysis-1''
      \<lparr>file_filename = Some ''f.csv'', file_content = [1, 2, 3]\<rparr> (Some ''t1'') ''object-1''
      \<lparr>minio = \<lparr>objects = [], fault = Some ''AccessDenied''\<rparr>, db = empty_ledger\<rparr> =
   (Inl (Uncaught (S3Error ''AccessDenied'')),
    \<lparr>minio = \<lparr>objects = [], fault = Some ''AccessDenied''\<rparr>,
     db = \<lparr>results = [\<lparr>r_id = 1, r_client_id = ''analysis-1'', r_object_id = ''object-1'',
                        r_filename = ''f.csv''\<rparr>],
           tags = [\<lparr>t_id = 1, t_tag_name = ''t1'', t_project_id = ''project-1''\<rparr>],
           tagged_results = [\<lparr>tr_id = 1, tr_tag = 1, tr_result = 1\<rparr>]\<rparr>\<rparr>)"
    by (simp add: submit_intermediate_result_to_local_def get_project_id_for_analysis_or_raise_def
        demo_hub_def valid_t1 tag_object_def bind_to_def tag_object_block_def
        Result_get_or_create_def Tag_get_or_create_def
        TaggedResult_get_or_create_def reachable_def get_or_create_def empty_ledger_def
        effective_filename_def fresh_id_def put_object_def)
  have purge: "delete_local_results demo_cfg hub_project_gone ''project-1'' ''hub-adapter''
      \<lparr>minio = \<lparr>objects = [], fault = None\<rparr>,
       db = \<lparr>results = [\<lparr>r_id = 1, r_client_id = ''analysis-1'', r_object_id = ''object-1'',
                          r_filename = ''f.csv''\<rparr>],
             tags = [\<lparr>t_id = 1, t_tag_name = ''t1'', t_project_id = ''project-1''\<rparr>],
             tagged_results = [\<lparr>tr_id = 1, tr_tag = 1, tr_result = 1\<rparr>]\<rparr>\<rparr> =
   (Inr (),
    \<lparr>minio = \<lparr>objects = [], fault = None\<rparr>,
     db = \<lparr>results = [\<lparr>r_id = 1, r_client_id = ''analysis-1'', r_object_id = ''object-1'',
                        r_filename = ''f.csv''\<rparr>],
           tags = [], tagged_results = []\<rparr>\<rparr>)"
    by (simp add: delete_local_results_def demo_cfg_def hub_project_gone_def
        remove_project_objects_def list_objects_def purge_ledger_def Tag_delete_where_def
        Result_delete_where_def)
  show ?thesis using upload purge by (rule conjI)
qed

text \<open>
  C9. \<open>create_object_tag\<close> looks the object up in the store before it tags: when the
  analysis resolves to a project and the bucket holds no object under the path of that
  project and object, the call fails with ObjectNotFound (404), or with ObjectStoreError
  (502) when the store answers with another error, and the world after the call is the
  world before it: no Result, Tag or TaggedResult row is written.
\<close>

theorem create_object_tag_requires_object:
  assumes "get_analysis core_client client_id = Some project_id"
    and "map_of (objects (minio w)) (object_path project_id object_id) = None"
  shows "create_object_tag up core_client tag_name object_id client_id filename w =
           (Inl (if fault (minio w) = None \<or> fault (minio w) = Some ''NoSuchKey''
                 then ObjectNotFound else ObjectStoreError), w)"
  using assms
  by (auto simp: create_object_tag_def get_project_id_for_analysis_or_raise_def
      get_object_from_s3_def get_object_def split: option.splits)

theorem create_object_tag_requires_object_witness:
  "create_object_tag reachable demo_hub ''t1'' ''object-9'' ''analysis-1'' None empty_world =
     (Inl ObjectNotFound, empty_world)"
  using create_object_tag_requires_object[of demo_hub "''analysis-1''" "''project-1''" empty_world
      "''object-9''" reachable "''t1''" None]
  by (simp add: demo_hub_def empty_world_def)

section \<open>Claims about the retrieval of intermediate results and the codec\<close>

lemma toy_cipher_correct:
  "aead_decrypt toy key nonce (aead_encrypt toy key nonce plaintext) = Some plaintext"
  by (simp add: toy_def toy_decrypt_def toy_encrypt_def comp_def)

text \<open>
  C2. A fetch with decryption requested, of a bucket file that exists and whose stream
  yields a first unit, with the peer's public key resolved: when the decryption of the
  first unit fails authentication, \<open>retrieve_intermediate_result_from_hub\<close> answers with
  the error DecryptionNotPossible (status 400) and no streaming body, so no chunk,
  plain or encrypted, is delivered.
\<close>

theorem precheck_failure_delivers_nothing:
  assumes "get_bucket_file storage_client object_id"
    and "stream_bucket_file storage_client object_id = first_bytes # rest"
    and "get_remote_node_public_key cs core_client node = Inr peer_key"
    and "decrypt_default cs private_key peer_key first_bytes = None"
  shows "retrieve_intermediate_result_from_hub cs core_client storage_client private_key object_id
           (Some node) = Inl DecryptionNotPossible \<and>
         status_code DecryptionNotPossible = 400 \<and>
         delivered (retrieve_intermediate_result_from_hub cs core_client storage_client private_key
           object_id (Some node)) = []"
  using assms by (simp add: retrieve_intermediate_result_from_hub_def)

theorem precheck_failure_delivers_nothing_witness:
  "get_bucket_file demo_storage ''file-1'' \<and>
   stream_bucket_file demo_storage ''file-1'' = [[7, 8, 17, 18, 19, 16, 7, 8]] \<and>
   get_remote_node_public_key toy demo_hub ''node-1'' = Inr 6 \<and>
   decrypt_default toy 5 6 [7, 8, 17, 18, 19, 16, 7, 8] = None \<and>
   retrieve_intermediate_result_from_hub toy demo_hub demo_storage 5 ''file-1'' (Some ''node-1'')
     = Inl DecryptionNotPossible \<and>
   delivered (retrieve_intermediate_result_from_hub toy demo_hub demo_storage 5 ''file-1''
     (Some ''node-1'')) = []"
proof -
  have h: "get_bucket_file demo_storage ''file-1''"
    "stream_bucket_file demo_storage ''file-1'' = [7, 8, 17, 18, 19, 16, 7, 8] # []"
    "get_remote_node_public_key toy demo_hub ''node-1'' = Inr 6"
    "decrypt_default toy 5 6 [7, 8, 17, 18, 19, 16, 7, 8] = None"
    by (simp_all add: demo_storage_def get_remote_node_public_key_def demo_hub_def toy_def
        decrypt_default_def decrypt_unit_def toy_decrypt_def)
  from precheck_failure_delivers_nothing[OF h] show ?thesis using h by simp
qed

text \<open>
  C10. The pre-check takes the first unit of the stream before anything else: for a
  bucket file that exists and whose stream yields no chunk, a fetch with decryption
  requested ends in the uncaught end-of-stream exception (a 500), whatever the node,
  and not in ObjectNotFound, DecryptionNotPossible or an empty body; and whenever the
  fetch answers DecryptionNotPossible, the stream had a first chunk.
\<close>

theorem precheck_needs_first_unit:
  "(get_bucket_file storage_client object_id \<and> stream_bucket_file storage_client object_id = []
      \<longrightarrow> retrieve_intermediate_result_from_hub cs core_client storage_client private_key
            object_id (Some node) = Inl (Uncaught StopIteration)) \<and>
   (retrieve_intermediate_result_from_hub cs core_client storage_client private_key object_id node_id
      = Inl DecryptionNotPossible
      \<longrightarrow> stream_bucket_file storage_client object_id \<noteq> [])"
  by (auto simp: retrieve_intermediate_result_from_hub_def
      split: option.splits list.splits sum.splits prod.splits if_splits)

theorem precheck_needs_first_unit_witness:
  "get_bucket_file demo_storage ''file-0'' \<and> stream_bucket_file demo_storage ''file-0'' = [] \<and>
   retrieve_intermediate_result_from_hub toy demo_hub demo_storage 5 ''file-0'' (Some ''node-1'')
     = Inl (Uncaught StopIteration)"
proof -
  have h: "get_bucket_file demo_storage ''file-0'' \<and> stream_bucket_file demo_storage ''file-0'' = []"
    by (simp add: demo_storage_def)
  with precheck_needs_first_unit[of demo_storage "''file-0''" toy demo_hub 5 "''node-1''"]
  show ?thesis by blast
qed

text \<open>
  C8. Round trip of the codec: for the primitives of a correct authenticated cipher
  (decryption under the key and nonce of the encryption returns the plaintext), a nonce
  of the width of the cipher, and two key pairs whose derived keys agree, decrypting
  with (B_priv, A_pub) what was encrypted with (A_priv, B_pub) returns the plaintext.
\<close>

theorem encrypt_decrypt_roundtrip:
  assumes "\<And>key nonce plaintext.
             aead_decrypt cs key nonce (aead_encrypt cs key nonce plaintext) = Some plaintext"
    and "length nonce = nonce_len cs"
    and "derive_shared_key cs a_priv b_pub = derive_shared_key cs b_priv a_pub"
  shows "decrypt_default cs b_priv a_pub (encrypt_default cs nonce a_priv b_pub P) = Some P"
  using assms
  by (simp add: decrypt_default_def encrypt_default_def decrypt_unit_def encrypt_unit_def)

theorem encrypt_decrypt_roundtrip_witness:
  "length [7, 8 :: 8 word] = nonce_len toy \<and>
   derive_shared_key toy 3 9 = derive_shared_key toy 5 8 \<and>
   encrypt_default toy [7, 8] 3 9 [1, 2, 3] = [7, 8, 17, 18, 19, 16, 7, 8] \<and>
   decrypt_default toy 5 8 (encrypt_default toy [7, 8] 3 9 [1, 2, 3]) = Some [1, 2, 3]"
proof -
  have h: "length [7, 8 :: 8 word] = nonce_len toy" "derive_shared_key toy 3 9 = derive_shared_key toy 5 8"
    by (simp_all add: toy_def)
  have e: "encrypt_default toy [7, 8] 3 9 [1, 2, 3] = [7, 8, 17, 18, 19, 16, 7, 8]"
    by (simp add: encrypt_default_def encrypt_unit_def toy_def toy_encrypt_def)
  from encrypt_decrypt_roundtrip[of toy, OF toy_cipher_correct h]
  have "decrypt_default toy 5 8 (encrypt_default toy [7, 8] 3 9 [1, 2, 3]) = Some [1, 2, 3]" .
  then show ?thesis using h e by (simp only: simp_thms)
qed

end
